theory Spec2Isabelle
  imports Main "HOL-Library.Char_ord" "HOL-Library.List_Lexorder" "HOL-Library.Multiset"
begin

section \<open>Z-Hub: the client-side data pipeline of the catalog views\<close>

text \<open>
  The three views (Compositions, Modules, Datasets) are Vue single-file components. Their
  script blocks are embedded here: the computed properties as functions of the refs they
  read, the loaders as functions from the view state to the new view state together with
  the requests they made and the warnings they logged.

  Strings are lists of \<^typ>\<open>char\<close>, read as the UTF-8 bytes of the text. A raised
  JavaScript exception is the left summand of a result.
\<close>

subsection \<open>Host operations used by the scripts\<close>

datatype js_error = TypeError

text \<open>\<^verbatim>\<open>s.includes(q)\<close>: \<open>q\<close> occurs in \<open>s\<close> as a contiguous run.\<close>

fun startsWith :: "'a list \<Rightarrow> 'a list \<Rightarrow> bool" where
  "startsWith s [] = True"
| "startsWith [] (q # qs) = False"
| "startsWith (c # cs) (q # qs) = (c = q \<and> startsWith cs qs)"

fun includes_of :: "'a list \<Rightarrow> 'a list \<Rightarrow> bool" where
  "includes_of [] q = (q = [])"
| "includes_of (c # cs) q = (startsWith (c # cs) q \<or> includes_of cs q)"

text \<open>\<^verbatim>\<open>xs.some(p)\<close> with a callback that cannot throw.\<close>

fun some :: "('a \<Rightarrow> bool) \<Rightarrow> 'a list \<Rightarrow> bool" where
  "some p [] = False"
| "some p (x # xs) = (p x \<or> some p xs)"

text \<open>
  \<^verbatim>\<open>xs.filter(p)\<close> with a callback that may throw: the exception of the first
  failing call leaves the filter.
\<close>

fun filterE :: "('a \<Rightarrow> js_error + bool) \<Rightarrow> 'a list \<Rightarrow> js_error + 'a list" where
  "filterE p [] = Inr []"
| "filterE p (x # xs) =
     (case p x of
        Inl e \<Rightarrow> Inl e
      | Inr b \<Rightarrow> (case filterE p xs of
                   Inl e \<Rightarrow> Inl e
                 | Inr ys \<Rightarrow> Inr (if b then x # ys else ys)))"

text \<open>
  \<^verbatim>\<open>Array.from(new Set(xs))\<close>: a Set keeps its elements in insertion order and
  ignores the insertion of an element it already has.
\<close>

definition setAdd :: "'a list \<Rightarrow> 'a \<Rightarrow> 'a list" where
  "setAdd s x = (if x \<in> set s then s else s @ [x])"

definition newSet :: "'a list \<Rightarrow> 'a list" where
  "newSet xs = foldl setAdd [] xs"

text \<open>
  \<^verbatim>\<open>s.toLowerCase()\<close> is a parameter \<open>toLowerCase\<close> of the functions below, so
  that what is proved holds for the host's Unicode lower-casing. \<open>toLowerCaseASCII\<close> is
  its restriction to ASCII text, used on concrete inputs.
\<close>

definition lowerChar :: "char \<Rightarrow> char" where
  "lowerChar c =
     (if CHR ''A'' \<le> c \<and> c \<le> CHR ''Z'' then char_of (of_char c + (32 :: nat)) else c)"

definition toLowerCaseASCII :: "string \<Rightarrow> string" where
  "toLowerCaseASCII s = map lowerChar s"

subsection \<open>Records of the catalog\<close>

text \<open>
  The fields the scripts read. \<open>tags\<close>, \<open>usedIn\<close> and \<open>capabilities\<close> are
  \<open>None\<close> when the property is missing from the JSON object (or \<open>null\<close>).
\<close>

record capability =
  cap_name :: string
  cap_description :: string

record composition =
  c_id :: string
  c_name :: string
  c_category :: string
  c_description :: string
  c_tags :: "string list option"
  c_usedIn :: "string list option"
  c_capabilities :: "capability list option"

record module =
  m_id :: string
  m_name :: string
  m_category :: string
  m_description :: string
  m_features :: "string list"
  m_tags :: "string list option"

subsection \<open>Compositions view: facets and search\<close>

text \<open>\<^verbatim>\<open>['All', ...Array.from(new Set(compositions.map(c => c.category))).sort()]\<close>\<close>

definition categories_compositions :: "composition list \<Rightarrow> string list" where
  "categories_compositions compositions = ''All'' # sort (newSet (map c_category compositions))"

text \<open>
  The callback of the text filter. \<open>query\<close> is the lower-cased search text. The
  disjunction is evaluated left to right and stops at the first true operand;
  \<^verbatim>\<open>c.tags.some\<close> throws when \<open>tags\<close> is missing, \<^verbatim>\<open>c.usedIn?.some\<close> and
  \<^verbatim>\<open>c.capabilities?.some\<close> yield \<open>undefined\<close> (falsy) instead.
\<close>

definition matchesComposition :: "(string \<Rightarrow> string) \<Rightarrow> string \<Rightarrow> composition \<Rightarrow> js_error + bool" where
  "matchesComposition toLowerCase query c =
     (if includes_of (toLowerCase (c_name c)) query then Inr True
      else if includes_of (toLowerCase (c_description c)) query then Inr True
      else (case c_tags c of
              None \<Rightarrow> Inl TypeError
            | Some tags \<Rightarrow>
                if some (\<lambda>tag. includes_of (toLowerCase tag) query) tags then Inr True
                else if (case c_usedIn c of
                           None \<Rightarrow> False
                         | Some usedIn \<Rightarrow> some (\<lambda>use. includes_of (toLowerCase use) query) usedIn)
                then Inr True
                else Inr (case c_capabilities c of
                            None \<Rightarrow> False
                          | Some capabilities \<Rightarrow>
                              some (\<lambda>cap. includes_of (toLowerCase (cap_name cap)) query \<or>
                                          includes_of (toLowerCase (cap_description cap)) query)
                                capabilities)))"

definition filteredCompositions ::
  "(string \<Rightarrow> string) \<Rightarrow> composition list \<Rightarrow> string \<Rightarrow> string \<Rightarrow> js_error + composition list" where
  "filteredCompositions toLowerCase compositions selectedCategory searchQuery =
     (let filtered = (if selectedCategory \<noteq> ''All''
                      then filter (\<lambda>c. c_category c = selectedCategory) compositions
                      else compositions)
      in if searchQuery \<noteq> []
         then filterE (matchesComposition toLowerCase (toLowerCase searchQuery)) filtered
         else Inr filtered)"

subsection \<open>Modules view: search, grouping and facets\<close>

text \<open>
  The callback of the text filter of \<^verbatim>\<open>modulesByCategory\<close>: name, description and
  tags; \<^verbatim>\<open>m.tags.some\<close> throws when \<open>tags\<close> is missing.
\<close>

definition matchesModule :: "(string \<Rightarrow> string) \<Rightarrow> string \<Rightarrow> module \<Rightarrow> js_error + bool" where
  "matchesModule toLowerCase query m =
     (if includes_of (toLowerCase (m_name m)) query then Inr True
      else if includes_of (toLowerCase (m_description m)) query then Inr True
      else (case m_tags m of
              None \<Rightarrow> Inl TypeError
            | Some tags \<Rightarrow> Inr (some (\<lambda>t. includes_of (toLowerCase t) query) tags)))"

text \<open>The value of \<^verbatim>\<open>filtered\<close> when the grouping starts: text filter, then category filter.\<close>

definition filteredModules ::
  "(string \<Rightarrow> string) \<Rightarrow> module list \<Rightarrow> string \<Rightarrow> string \<Rightarrow> js_error + module list" where
  "filteredModules toLowerCase modules searchQuery selectedCategory =
     (case (if searchQuery \<noteq> []
            then filterE (matchesModule toLowerCase (toLowerCase searchQuery)) modules
            else Inr modules) of
        Inl e \<Rightarrow> Inl e
      | Inr filtered \<Rightarrow>
          Inr (if selectedCategory \<noteq> ''all''
               then filter (\<lambda>m. m_category m = selectedCategory) filtered
               else filtered))"

text \<open>
  The object literal \<^verbatim>\<open>grouped = {}\<close>: its own properties in creation order, and the
  names it inherits from \<^verbatim>\<open>Object.prototype\<close>. Reading \<^verbatim>\<open>grouped[k]\<close> finds an own
  property first, then an inherited member (a function or object, truthy, without
  \<^verbatim>\<open>push\<close>), else \<open>undefined\<close>.
\<close>

type_synonym 'v js_object = "(string \<times> 'v) list"

definition objectPrototypeKeys :: "string list" where
  "objectPrototypeKeys =
     [''constructor'', ''__proto__'', ''hasOwnProperty'', ''isPrototypeOf'',
      ''propertyIsEnumerable'', ''toLocaleString'', ''toString'', ''valueOf'',
      ''__defineGetter__'', ''__defineSetter__'', ''__lookupGetter__'', ''__lookupSetter__'']"

datatype 'v js_lookup = Own 'v | Inherited | Undefined

definition getProperty :: "'v js_object \<Rightarrow> string \<Rightarrow> 'v js_lookup" where
  "getProperty obj k =
     (case map_of obj k of
        Some v \<Rightarrow> Own v
      | None \<Rightarrow> if k \<in> set objectPrototypeKeys then Inherited else Undefined)"

text \<open>Assignment keeps the place of an existing own property and appends a new one.\<close>

fun setProperty :: "string \<Rightarrow> 'v \<Rightarrow> 'v js_object \<Rightarrow> 'v js_object" where
  "setProperty k v [] = [(k, v)]"
| "setProperty k v (p # ps) = (if fst p = k then (k, v) # ps else p # setProperty k v ps)"

text \<open>
  \<^verbatim>\<open>Object.keys\<close>, which the template's \<^verbatim>\<open>v-for\<close> over the object follows: the keys
  that are array indices (canonical decimal numerals below \<open>2^32 - 1\<close>) in ascending
  numeric order, then the other keys in creation order.
\<close>

definition isDigit :: "char \<Rightarrow> bool" where
  "isDigit c = (CHR ''0'' \<le> c \<and> c \<le> CHR ''9'')"

definition digitsValue :: "string \<Rightarrow> nat" where
  "digitsValue s = foldl (\<lambda>n c. 10 * n + (of_char c - of_char CHR ''0'')) 0 s"

definition isArrayIndex :: "string \<Rightarrow> bool" where
  "isArrayIndex s =
     (s \<noteq> [] \<and> list_all isDigit s \<and> (length s = 1 \<or> hd s \<noteq> CHR ''0'') \<and>
      digitsValue s < 4294967295)"

definition objectEntries :: "'v js_object \<Rightarrow> (string \<times> 'v) list" where
  "objectEntries obj =
     sort_key (\<lambda>p. digitsValue (fst p)) (filter (\<lambda>p. isArrayIndex (fst p)) obj) @
     filter (\<lambda>p. \<not> isArrayIndex (fst p)) obj"

text \<open>\<^verbatim>\<open>xs.forEach(f)\<close> with a callback that updates a state and may throw.\<close>

fun forEachE :: "('s \<Rightarrow> 'a \<Rightarrow> js_error + 's) \<Rightarrow> 'a list \<Rightarrow> 's \<Rightarrow> js_error + 's" where
  "forEachE f [] s = Inr s"
| "forEachE f (x # xs) s = (case f s x of Inl e \<Rightarrow> Inl e | Inr s' \<Rightarrow> forEachE f xs s')"

text \<open>
  The body of the grouping loop:
  \<^verbatim>\<open>if (!grouped[module.category]) grouped[module.category] = [];\<close>
  \<^verbatim>\<open>grouped[module.category].push(module);\<close>
\<close>

definition groupStep :: "module list js_object \<Rightarrow> module \<Rightarrow> js_error + module list js_object" where
  "groupStep grouped m =
     (let k = m_category m;
          grouped1 = (if getProperty grouped k = Undefined then setProperty k [] grouped
                      else grouped)
      in case getProperty grouped1 k of
           Own bucket \<Rightarrow> Inr (setProperty k (bucket @ [m]) grouped1)
         | Inherited \<Rightarrow> Inl TypeError
         | Undefined \<Rightarrow> Inl TypeError)"

definition groupByCategory :: "module list \<Rightarrow> js_error + module list js_object" where
  "groupByCategory filtered = forEachE groupStep filtered []"

definition modulesByCategory ::
  "(string \<Rightarrow> string) \<Rightarrow> module list \<Rightarrow> string \<Rightarrow> string \<Rightarrow> js_error + module list js_object" where
  "modulesByCategory toLowerCase modules searchQuery selectedCategory =
     (case filteredModules toLowerCase modules searchQuery selectedCategory of
        Inl e \<Rightarrow> Inl e
      | Inr filtered \<Rightarrow> groupByCategory filtered)"

text \<open>The buckets as the template renders them, each with its count badge.\<close>

definition renderedBuckets :: "module list js_object \<Rightarrow> (string \<times> nat \<times> module list) list" where
  "renderedBuckets grouped = map (\<lambda>(category, ms). (category, length ms, ms)) (objectEntries grouped)"

text \<open>\<^verbatim>\<open>['all', ...Array.from(new Set(modules.map(m => m.category))).sort()]\<close>\<close>

definition categories_modules :: "module list \<Rightarrow> string list" where
  "categories_modules modules = ''all'' # sort (newSet (map m_category modules))"

subsection \<open>Asset loading\<close>

text \<open>
  A parsed JSON payload. The loaders only ask whether it is an array and, if so, how long.
\<close>

datatype 'a json =
    JArray "'a list"
  | JObject "(string \<times> 'a json) list"
  | JString string
  | JNumber int
  | JBool bool
  | JNull

fun isArray :: "'a json \<Rightarrow> bool" where
  "isArray (JArray xs) = True"
| "isArray v = False"

text \<open>
  What one \<^verbatim>\<open>fetch(url)\<close> comes to. \<open>Rejected\<close>: the promise rejects (network failure,
  or the request was aborted by the 6000 ms timer). \<open>Response status body\<close>: a response
  arrived; \<open>body\<close> is \<open>None\<close> when \<^verbatim>\<open>res.json()\<close> rejects.
\<close>

datatype 'a fetch_outcome = Rejected | Response nat "'a json option"

type_synonym 'a network = "string \<Rightarrow> 'a fetch_outcome"

datatype fetch_error = FetchError | HttpError nat string | BodyError | InvalidJSON string

definition ok :: "nat \<Rightarrow> bool" where
  "ok status = (200 \<le> status \<and> status \<le> 299)"

text \<open>\<^verbatim>\<open>tryFetch\<close> of the Modules view (promise chain).\<close>

definition tryFetch_modules :: "'a network \<Rightarrow> string \<Rightarrow> fetch_error + 'a json" where
  "tryFetch_modules net url =
     (case net url of
        Rejected \<Rightarrow> Inl FetchError
      | Response status body \<Rightarrow>
          if \<not> ok status then Inl (HttpError status url)
          else (case body of None \<Rightarrow> Inl BodyError | Some data \<Rightarrow> Inr data))"

text \<open>
  \<^verbatim>\<open>tryFetch\<close> of the Datasets view (async executor): a body that is not JSON rejects
  with \<^verbatim>\<open>Invalid JSON @ url\<close>; the later \<^verbatim>\<open>resolve(undefined)\<close> has no effect.
\<close>

definition tryFetch_datasets :: "'a network \<Rightarrow> string \<Rightarrow> fetch_error + 'a json" where
  "tryFetch_datasets net url =
     (case net url of
        Rejected \<Rightarrow> Inl FetchError
      | Response status body \<Rightarrow>
          if \<not> ok status then Inl (HttpError status url)
          else (case body of None \<Rightarrow> Inl (InvalidJSON url) | Some data \<Rightarrow> Inr data))"

text \<open>
  The candidate URLs.
  \<^verbatim>\<open>(import.meta.env.BASE_URL || '/').replace(/\/+$/g, '/').replace(/^$/g, '/')\<close>
\<close>

definition replaceTrailingSlashes :: "string \<Rightarrow> string" where
  "replaceTrailingSlashes s =
     (let t = rev (dropWhile (\<lambda>c. c = CHR ''/'') (rev s))
      in if t = s then s else t @ ''/'')"

definition replaceEmpty :: "string \<Rightarrow> string" where
  "replaceEmpty s = (if s = [] then ''/'' else s)"

definition normalizeBase :: "string \<Rightarrow> string" where
  "normalizeBase BASE_URL =
     replaceEmpty (replaceTrailingSlashes (if BASE_URL = [] then ''/'' else BASE_URL))"

fun decimal :: "nat \<Rightarrow> string" where
  "decimal n =
     (if n < 10 then [char_of (of_char CHR ''0'' + n)]
      else decimal (n div 10) @ [char_of (of_char CHR ''0'' + n mod 10)])"

declare decimal.simps [simp del]

text \<open>
  \<^verbatim>\<open>.map((u) => `${u}${u.includes('?') ? '' : `?ts=${Date.now()}`}`)\<close>; \<open>now i\<close> is
  what \<^verbatim>\<open>Date.now()\<close> returns while element \<open>i\<close> is mapped.
\<close>

fun cacheBust :: "(nat \<Rightarrow> nat) \<Rightarrow> nat \<Rightarrow> string list \<Rightarrow> string list" where
  "cacheBust now i [] = []"
| "cacheBust now i (u # us) =
     (u @ (if includes_of u ''?'' then [] else ''?ts='' @ decimal (now i))) #
     cacheBust now (Suc i) us"

definition candidateUrls :: "(nat \<Rightarrow> nat) \<Rightarrow> string \<Rightarrow> string \<Rightarrow> string list" where
  "candidateUrls now BASE_URL asset =
     cacheBust now 0 (newSet [normalizeBase BASE_URL @ asset, ''/'' @ asset, asset])"

text \<open>
  The candidate loop of \<^verbatim>\<open>loadModules\<close> and \<^verbatim>\<open>loadCommunityDatasets\<close> (the same text
  in both): the first candidate that resolves is adopted and ends the loop, a candidate
  that rejects is logged with \<^verbatim>\<open>console.warn\<close> and remembered in \<^verbatim>\<open>lastErr\<close>.
\<close>

record 'a fetch_loop =
  collection :: "'a json"
  lastErr :: "fetch_error option"
  requested :: "string list"
  warnings :: "fetch_error list"

fun adoptFirst ::
  "(string \<Rightarrow> fetch_error + 'a json) \<Rightarrow> string list \<Rightarrow> 'a fetch_loop \<Rightarrow> 'a fetch_loop" where
  "adoptFirst tryFetch [] l = l"
| "adoptFirst tryFetch (url # urls) l =
     (case tryFetch url of
        Inr data \<Rightarrow>
          l\<lparr>collection := (if isArray data then data else JArray []),
            lastErr := None,
            requested := requested l @ [url]\<rparr>
      | Inl e \<Rightarrow>
          adoptFirst tryFetch urls
            (l\<lparr>lastErr := Some e,
               requested := requested l @ [url],
               warnings := warnings l @ [e]\<rparr>))"

text \<open>
  The candidate loop of \<^verbatim>\<open>loadSdrbenchDatasets\<close>: the first candidate that resolves
  ends the loop, and replaces the collection only if it is a non-empty array.
\<close>

definition nonEmptyArray :: "'a json \<Rightarrow> bool" where
  "nonEmptyArray data = (case data of JArray xs \<Rightarrow> length xs \<noteq> 0 | _ \<Rightarrow> False)"

fun overrideFirst ::
  "(string \<Rightarrow> fetch_error + 'a json) \<Rightarrow> string list \<Rightarrow> 'a fetch_loop \<Rightarrow> 'a fetch_loop" where
  "overrideFirst tryFetch [] l = l"
| "overrideFirst tryFetch (url # urls) l =
     (case tryFetch url of
        Inr data \<Rightarrow>
          l\<lparr>collection := (if nonEmptyArray data then data else collection l),
            requested := requested l @ [url]\<rparr>
      | Inl e \<Rightarrow>
          overrideFirst tryFetch urls
            (l\<lparr>requested := requested l @ [url], warnings := warnings l @ [e]\<rparr>))"

text \<open>A finished run of a loader: the view state, the URLs fetched, the errors logged.\<close>

record 'st run =
  final :: 'st
  requests :: "string list"
  console :: "fetch_error list"

subsubsection \<open>Modules view\<close>

record 'a modules_view =
  modules :: "'a json"
  modules_loading :: bool
  modules_error :: string

definition modules_view_init :: "'a modules_view" where
  "modules_view_init = \<lparr>modules = JArray [], modules_loading = False, modules_error = []\<rparr>"

definition loadModules ::
  "'a network \<Rightarrow> string \<Rightarrow> (nat \<Rightarrow> nat) \<Rightarrow> 'a modules_view \<Rightarrow> 'a modules_view run" where
  "loadModules net BASE_URL now st =
     (let st1 = st\<lparr>modules_loading := True, modules_error := []\<rparr>;
          candidates = candidateUrls now BASE_URL ''modules.json'';
          l = adoptFirst (tryFetch_modules net) candidates
                \<lparr>collection = modules st1, lastErr = None, requested = [], warnings = []\<rparr>;
          st2 = st1\<lparr>modules := collection l\<rparr>;
          st3 = (if lastErr l \<noteq> None
                 then st2\<lparr>modules_error := ''Failed to load modules. Please try again later.''\<rparr>
                 else st2)
      in \<lparr>final = st3\<lparr>modules_loading := False\<rparr>, requests = requested l,
          console = warnings l\<rparr>)"

subsubsection \<open>Datasets view\<close>

record ('c, 's) datasets_view =
  communityDatasets :: "'c json"
  sdrbenchDatasets :: "'s json"
  loading :: bool
  error :: string
  sdrError :: string

definition datasets_view_init :: "('c, 's) datasets_view" where
  "datasets_view_init =
     \<lparr>communityDatasets = JArray [], sdrbenchDatasets = JArray [], loading = False,
      error = [], sdrError = []\<rparr>"

definition loadCommunityDatasets ::
  "'c network \<Rightarrow> string \<Rightarrow> (nat \<Rightarrow> nat) \<Rightarrow> ('c, 's) datasets_view \<Rightarrow> ('c, 's) datasets_view run" where
  "loadCommunityDatasets net BASE_URL now st =
     (let st1 = st\<lparr>error := []\<rparr>;
          candidates = candidateUrls now BASE_URL ''datasets.json'';
          l = adoptFirst (tryFetch_datasets net) candidates
                \<lparr>collection = communityDatasets st1, lastErr = None, requested = [],
                 warnings = []\<rparr>;
          st2 = st1\<lparr>communityDatasets := collection l\<rparr>;
          st3 = (if lastErr l \<noteq> None
                 then st2\<lparr>error := ''Failed to load community datasets. Please try again later.''\<rparr>
                 else st2)
      in \<lparr>final = st3, requests = requested l, console = warnings l\<rparr>)"

text \<open>
  \<^verbatim>\<open>SDRBENCH_EMBEDDED\<close> is not declared in the script, so it is a parameter: \<open>None\<close>
  when the name is unbound (the read throws and the \<^verbatim>\<open>catch\<close> stores the empty array),
  else the value it is bound to.
\<close>

definition embeddedList :: "'s json option \<Rightarrow> 's json" where
  "embeddedList SDRBENCH_EMBEDDED =
     (case SDRBENCH_EMBEDDED of
        None \<Rightarrow> JArray []
      | Some v \<Rightarrow> if isArray v then v else JArray [])"

definition loadSdrbenchDatasets ::
  "'s network \<Rightarrow> string \<Rightarrow> (nat \<Rightarrow> nat) \<Rightarrow> 's json option \<Rightarrow> ('c, 's) datasets_view \<Rightarrow>
   ('c, 's) datasets_view run" where
  "loadSdrbenchDatasets net BASE_URL now SDRBENCH_EMBEDDED st =
     (let st1 = st\<lparr>sdrError := []\<rparr>;
          st2 = st1\<lparr>sdrbenchDatasets := embeddedList SDRBENCH_EMBEDDED\<rparr>;
          candidates = candidateUrls now BASE_URL ''sdrbench-datasets.json'';
          l = overrideFirst (tryFetch_datasets net) candidates
                \<lparr>collection = sdrbenchDatasets st2, lastErr = None, requested = [],
                 warnings = []\<rparr>
      in \<lparr>final = st2\<lparr>sdrbenchDatasets := collection l\<rparr>, requests = requested l,
          console = warnings l\<rparr>)"

subsubsection \<open>Compositions view\<close>

text \<open>
  \<^verbatim>\<open>loadCompositions\<close>: one fetch of \<^verbatim>\<open>BASE_URL + 'compositions.json'\<close>; whatever the
  body parses to is stored, whatever the status; a rejection is logged with
  \<^verbatim>\<open>console.error\<close>. The view has no loading or error ref.
\<close>

record 'a compositions_view =
  compositions :: "'a json"

definition loadCompositions ::
  "'a network \<Rightarrow> string \<Rightarrow> 'a compositions_view \<Rightarrow> 'a compositions_view run" where
  "loadCompositions net BASE_URL st =
     (let url = BASE_URL @ ''compositions.json''
      in case net url of
           Rejected \<Rightarrow> \<lparr>final = st, requests = [url], console = [FetchError]\<rparr>
         | Response status body \<Rightarrow>
             (case body of
                None \<Rightarrow> \<lparr>final = st, requests = [url], console = [BodyError]\<rparr>
              | Some data \<Rightarrow>
                  \<lparr>final = st\<lparr>compositions := data\<rparr>, requests = [url], console = []\<rparr>))"

subsection \<open>Submission URL builder\<close>

record upload_form =
  form_name :: string
  form_description :: string
  form_tags :: string
  form_links :: string
  form_size :: string

text \<open>\<^verbatim>\<open>x || ''\<close> on a string.\<close>

definition orEmpty :: "string \<Rightarrow> string" where
  "orEmpty x = (if x \<noteq> [] then x else [])"

text \<open>\<^verbatim>\<open>xs.join(sep)\<close>\<close>

fun join :: "string \<Rightarrow> string list \<Rightarrow> string" where
  "join sep [] = []"
| "join sep [x] = x"
| "join sep (x # y # ys) = x @ sep @ join sep (y # ys)"

text \<open>
  \<^verbatim>\<open>new URLSearchParams({...}).toString()\<close>, the application/x-www-form-urlencoded
  serializer: letters, digits and \<^verbatim>\<open>* - . _\<close> stay, a space becomes \<^verbatim>\<open>+\<close>, every
  other byte becomes \<^verbatim>\<open>%\<close> and two upper-case hexadecimal digits; pairs are written
  \<^verbatim>\<open>name=value\<close> and joined with \<^verbatim>\<open>&\<close>.
\<close>

definition unreserved :: "char \<Rightarrow> bool" where
  "unreserved c =
     ((CHR ''a'' \<le> c \<and> c \<le> CHR ''z'') \<or> (CHR ''A'' \<le> c \<and> c \<le> CHR ''Z'') \<or>
      (CHR ''0'' \<le> c \<and> c \<le> CHR ''9'') \<or>
      c = CHR ''*'' \<or> c = CHR ''-'' \<or> c = CHR ''.'' \<or> c = CHR ''_'')"

definition hexDigit :: "nat \<Rightarrow> char" where
  "hexDigit n = ''0123456789ABCDEF'' ! (n mod 16)"

definition percentEncodeByte :: "char \<Rightarrow> string" where
  "percentEncodeByte c =
     (if c = CHR '' '' then ''+''
      else if unreserved c then [c]
      else [CHR ''%'', hexDigit (of_char c div 16), hexDigit (of_char c mod 16)])"

definition urlencode :: "string \<Rightarrow> string" where
  "urlencode s = concat (map percentEncodeByte s)"

definition serializeParams :: "(string \<times> string) list \<Rightarrow> string" where
  "serializeParams params = join ''&'' (map (\<lambda>(n, v). urlencode n @ ''='' @ urlencode v) params)"

text \<open>
  \<^verbatim>\<open>buildIssueUrl\<close>; \<open>repoSlug\<close> is the value of the ref of that name (what
  \<^verbatim>\<open>repoFromEnvOrGuess\<close> returned when the component was set up, the empty string when it
  found no repository).
\<close>

definition buildIssueUrl :: "string \<Rightarrow> upload_form \<Rightarrow> string" where
  "buildIssueUrl repoSlug uploadForm =
     (let repo = repoSlug;
          base = (if repo \<noteq> [] then ''https://github.com/'' @ repo @ ''/issues/new''
                  else ''https://github.com/new'');
          title = ''[Dataset] Contributing '' @ orEmpty (form_name uploadForm);
          body = join [CHR 0x0A]
                   [''### Dataset name'',
                    orEmpty (form_name uploadForm),
                    [],
                    ''### Description'',
                    orEmpty (form_description uploadForm),
                    [],
                    ''### Data URL(s)'',
                    orEmpty (form_links uploadForm),
                    [],
                    ''### Size'',
                    orEmpty (form_size uploadForm),
                    [],
                    ''### Tags'',
                    orEmpty (form_tags uploadForm),
                    [],
                    ''_Submitted via Z-Hub site_''];
          params = [(''title'', title), (''body'', body), (''labels'', ''dataset'')]
      in base @ ''?'' @ serializeParams params)"

text \<open>
  How the receiver reads such a URL (URL standard): the query is what lies between the first
  \<^verbatim>\<open>?\<close> and the first \<^verbatim>\<open>#\<close>; it is split at every \<^verbatim>\<open>&\<close>, each non-empty piece at
  its first \<^verbatim>\<open>=\<close>; in name and value \<^verbatim>\<open>+\<close> becomes a space and every \<^verbatim>\<open>%\<close> followed
  by two hexadecimal digits becomes the byte they denote.
\<close>

definition urlQuery :: "string \<Rightarrow> string" where
  "urlQuery url =
     drop 1 (dropWhile (\<lambda>c. c \<noteq> CHR ''?'') (takeWhile (\<lambda>c. c \<noteq> CHR ''#'') url))"

fun splitOn :: "char \<Rightarrow> string \<Rightarrow> string list" where
  "splitOn d [] = [] # []"
| "splitOn d (c # cs) =
     (if c = d then [] # splitOn d cs
      else (case splitOn d cs of [] \<Rightarrow> [c] # [] | p # ps \<Rightarrow> (c # p) # ps))"

definition isHexDigit :: "char \<Rightarrow> bool" where
  "isHexDigit c =
     ((CHR ''0'' \<le> c \<and> c \<le> CHR ''9'') \<or> (CHR ''A'' \<le> c \<and> c \<le> CHR ''F'') \<or>
      (CHR ''a'' \<le> c \<and> c \<le> CHR ''f''))"

definition hexValue :: "char \<Rightarrow> nat" where
  "hexValue c =
     (if CHR ''0'' \<le> c \<and> c \<le> CHR ''9'' then of_char c - of_char CHR ''0''
      else if CHR ''A'' \<le> c \<and> c \<le> CHR ''F'' then of_char c - of_char CHR ''A'' + 10
      else of_char c - of_char CHR ''a'' + 10)"

fun percentDecode :: "string \<Rightarrow> string" where
  "percentDecode (c # h1 # h2 # rest) =
     (if c = CHR ''%'' \<and> isHexDigit h1 \<and> isHexDigit h2
      then char_of (16 * hexValue h1 + hexValue h2) # percentDecode rest
      else c # percentDecode (h1 # h2 # rest))"
| "percentDecode cs = cs"

definition urldecode :: "string \<Rightarrow> string" where
  "urldecode s = percentDecode (map (\<lambda>c. if c = CHR ''+'' then CHR '' '' else c) s)"

definition parseParams :: "string \<Rightarrow> (string \<times> string) list" where
  "parseParams query =
     map (\<lambda>piece. (urldecode (takeWhile (\<lambda>c. c \<noteq> CHR ''='') piece),
                    urldecode (drop 1 (dropWhile (\<lambda>c. c \<noteq> CHR ''='') piece))))
       (filter (\<lambda>piece. piece \<noteq> []) (splitOn CHR ''&'' query))"

text \<open>\<^verbatim>\<open>new URL(url).searchParams.get(name)\<close>: the value of the first pair of that name.\<close>

definition queryParam :: "string \<Rightarrow> string \<Rightarrow> string option" where
  "queryParam name url = map_of (parseParams (urlQuery url)) name"

subsection \<open>Notions used to state the properties\<close>

text \<open>The payload of the first candidate that resolves, if any candidate does.\<close>

fun firstResolved :: "(string \<Rightarrow> fetch_error + 'a json) \<Rightarrow> string list \<Rightarrow> 'a json option" where
  "firstResolved tryFetch [] = None"
| "firstResolved tryFetch (url # urls) =
     (case tryFetch url of Inr data \<Rightarrow> Some data | Inl e \<Rightarrow> firstResolved tryFetch urls)"

text \<open>
  The searchable fields of an item, a missing collection counting as empty, and the text
  match over a list of fields: the lower-cased query occurs in the lower-cased field.
\<close>

definition orNone :: "'a list option \<Rightarrow> 'a list" where
  "orNone xs = (case xs of None \<Rightarrow> [] | Some ys \<Rightarrow> ys)"

definition searchable_composition :: "composition \<Rightarrow> string list" where
  "searchable_composition c =
     [c_name c, c_description c] @ orNone (c_tags c) @ orNone (c_usedIn c) @
     concat (map (\<lambda>cap. [cap_name cap, cap_description cap]) (orNone (c_capabilities c)))"

definition searchable_module :: "module \<Rightarrow> string list" where
  "searchable_module m = [m_name m, m_description m] @ orNone (m_tags m)"

definition textMatch :: "(string \<Rightarrow> string) \<Rightarrow> string \<Rightarrow> string list \<Rightarrow> bool" where
  "textMatch toLowerCase searchQuery fs =
     some (\<lambda>f. includes_of (toLowerCase f) (toLowerCase searchQuery)) fs"

subsection \<open>Concrete inputs\<close>

definition rle :: module where
  "rle = \<lparr>m_id = ''m1'', m_name = ''RLE'', m_category = ''Encoder'',
          m_description = ''run length'', m_features = [''fast''],
          m_tags = Some [''lossless'']\<rparr>"

definition lorenzo :: module where
  "lorenzo = \<lparr>m_id = ''m2'', m_name = ''Lorenzo'', m_category = ''Predictor'',
              m_description = ''neighbour prediction'', m_features = [''multi-dimensional''],
              m_tags = Some [''lossy'']\<rparr>"

definition huffman :: module where
  "huffman = \<lparr>m_id = ''m3'', m_name = ''Huffman'', m_category = ''Encoder'',
              m_description = ''entropy coding'', m_features = [''optimal prefix code''],
              m_tags = Some [''lossless'']\<rparr>"

definition untagged :: module where
  "untagged = \<lparr>m_id = ''m4'', m_name = ''Bitshuffle'', m_category = ''Shuffler'',
               m_description = ''bit transpose'', m_features = [], m_tags = None\<rparr>"

definition sz3 :: composition where
  "sz3 = \<lparr>c_id = ''c1'', c_name = ''SZ3'', c_category = ''CPU'',
          c_description = ''Prediction-based lossy compressor'',
          c_tags = Some [''lossy'', ''HPC''], c_usedIn = Some [''LibPressio''],
          c_capabilities = Some [\<lparr>cap_name = ''Error bounded'',
                                   cap_description = ''absolute and relative bounds''\<rparr>]\<rparr>"

definition cuszp :: composition where
  "cuszp = \<lparr>c_id = ''c2'', c_name = ''cuSZp'', c_category = ''GPU'',
            c_description = ''Single-kernel GPU compressor'',
            c_tags = Some [''lossy''], c_usedIn = None, c_capabilities = None\<rparr>"

definition bare :: composition where
  "bare = \<lparr>c_id = ''c3'', c_name = ''ZFP'', c_category = ''cpu'',
           c_description = ''Transform-based compressor'',
           c_tags = None, c_usedIn = None, c_capabilities = None\<rparr>"

definition clock :: "nat \<Rightarrow> nat" where
  "clock i = 1700000000000 + i"

definition offline :: "'a network" where
  "offline url = Rejected"

definition firstServes :: "string network" where
  "firstServes url =
     (if url = ''/modules.json?ts=1700000000000'' \<or> url = ''/datasets.json?ts=1700000000000''
      then Response 200 (Some (JArray [''a'', ''b'']))
      else Response 500 None)"

definition objectThenArray :: "string network" where
  "objectThenArray url =
     (if url = ''/modules.json?ts=1700000000000''
      then Response 200 (Some (JObject [(''error'', JString ''moved'')]))
      else Response 200 (Some (JArray [''a''])))"

definition htmlThenArray :: "string network" where
  "htmlThenArray url =
     (if url = ''/modules.json?ts=1700000000000'' then Response 200 None
      else Response 200 (Some (JArray [''a''])))"

definition objectEverywhere :: "string network" where
  "objectEverywhere url = Response 200 (Some (JObject [(''error'', JString ''moved'')]))"

definition overrideServed :: "string network" where
  "overrideServed url =
     (if url = ''/sdrbench-datasets.json?ts=1700000000000'' then Response 404 None
      else Response 200 (Some (JArray [''NYX''])))"

definition sampleForm :: upload_form where
  "sampleForm = \<lparr>form_name = ''Foo'', form_description = [], form_tags = [],
                 form_links = ''http://x'', form_size = []\<rparr>"

section \<open>Properties\<close>

subsection \<open>Sets as insertion-ordered lists\<close>

lemma set_foldl_setAdd: "set (foldl setAdd acc xs) = set acc \<union> set xs"
  by (induction xs arbitrary: acc) (auto simp: setAdd_def)

lemma distinct_foldl_setAdd: "distinct acc \<Longrightarrow> distinct (foldl setAdd acc xs)"
  by (induction xs arbitrary: acc) (auto simp: setAdd_def)

lemma set_newSet: "set (newSet xs) = set xs"
  by (simp add: newSet_def set_foldl_setAdd)

lemma distinct_newSet: "distinct (newSet xs)"
  by (simp add: newSet_def distinct_foldl_setAdd)

lemma newSet_snoc: "newSet (xs @ [x]) = (if x \<in> set xs then newSet xs else newSet xs @ [x])"
  by (simp add: newSet_def setAdd_def set_foldl_setAdd)

lemma sort_newSet: "sort (newSet xs) = sorted_list_of_set (set xs)"
proof -
  have "sort (newSet xs) = sorted_list_of_set (set (newSet xs))"
    by (simp add: sorted_list_of_set_sort_remdups distinct_remdups_id distinct_newSet)
  then show ?thesis by (simp add: set_newSet)
qed

text \<open>
  C8. The facet list of either view is the view's sentinel (\<open>All\<close> for compositions,
  \<open>all\<close> for modules) followed by the distinct categories of the whole collection in
  ascending order, the order being the lexicographic one on the characters' codes (so
  upper case sorts before lower case). The sentinel is first for every collection, and
  for the empty collection it is the whole list.
\<close>

theorem facet_list:
  "categories_compositions cs = ''All'' # sorted_list_of_set (c_category ` set cs) \<and>
   categories_modules ms = ''all'' # sorted_list_of_set (m_category ` set ms) \<and>
   categories_compositions [] = [''All''] \<and> categories_modules [] = [''all'']"
proof -
  have "newSet ([] :: string list) = []" by (simp add: newSet_def)
  then show ?thesis
    by (simp add: categories_compositions_def categories_modules_def sort_newSet)
qed

theorem facet_list_witness:
  "categories_compositions [sz3, cuszp, bare, cuszp] = [''All'', ''CPU'', ''GPU'', ''cpu''] \<and>
   sorted_list_of_set (c_category ` set [sz3, cuszp, bare, cuszp]) = [''CPU'', ''GPU'', ''cpu''] \<and>
   categories_modules [lorenzo, rle, huffman] = [''all'', ''Encoder'', ''Predictor'']"
proof -
  have c: "categories_compositions [sz3, cuszp, bare, cuszp] = [''All'', ''CPU'', ''GPU'', ''cpu'']"
    by (simp add: categories_compositions_def newSet_def setAdd_def sz3_def cuszp_def bare_def)
  have m: "categories_modules [lorenzo, rle, huffman] = [''all'', ''Encoder'', ''Predictor'']"
    by (simp add: categories_modules_def newSet_def setAdd_def lorenzo_def rle_def huffman_def)
  from c m facet_list [of "[sz3, cuszp, bare, cuszp]" "[lorenzo, rle, huffman]"]
  show ?thesis by simp
qed

subsection \<open>The candidate loops\<close>

lemma cacheBust_length: "length (cacheBust now i us) = length us"
  by (induction us arbitrary: i) auto

lemma newSet_Cons_nonempty: "newSet (x # xs) \<noteq> []"
proof -
  have "x \<in> set (newSet (x # xs))" by (simp add: set_newSet)
  then show ?thesis by auto
qed

lemma candidateUrls_nonempty: "candidateUrls now BASE_URL asset \<noteq> []"
proof -
  have "length (candidateUrls now BASE_URL asset) \<noteq> 0"
    unfolding candidateUrls_def cacheBust_length using newSet_Cons_nonempty by simp
  then show ?thesis by simp
qed

lemma adoptFirst_collection:
  "collection (adoptFirst tf us l) =
     (case firstResolved tf us of
        None \<Rightarrow> collection l
      | Some d \<Rightarrow> if isArray d then d else JArray [])"
  by (induction us arbitrary: l) (auto split: sum.splits option.splits)

lemma adoptFirst_lastErr_resolved:
  "firstResolved tf us = Some d \<Longrightarrow> lastErr (adoptFirst tf us l) = None"
  by (induction us arbitrary: l) (auto split: sum.splits)

lemma adoptFirst_all_fail:
  "\<forall>u\<in>set us. \<exists>e. tf u = Inl e \<Longrightarrow>
   collection (adoptFirst tf us l) = collection l \<and>
   requested (adoptFirst tf us l) = requested l @ us \<and>
   (us \<noteq> [] \<longrightarrow> lastErr (adoptFirst tf us l) \<noteq> None) \<and>
   length (warnings (adoptFirst tf us l)) = length (warnings l) + length us"
proof (induction us arbitrary: l)
  case Nil
  then show ?case by simp
next
  case (Cons u us)
  then obtain e where e: "tf u = Inl e" by auto
  let ?l = "l\<lparr>lastErr := Some e, requested := requested l @ [u], warnings := warnings l @ [e]\<rparr>"
  have step: "adoptFirst tf (u # us) l = adoptFirst tf us ?l" using e by simp
  have IH: "collection (adoptFirst tf us ?l) = collection ?l \<and>
            requested (adoptFirst tf us ?l) = requested ?l @ us \<and>
            (us \<noteq> [] \<longrightarrow> lastErr (adoptFirst tf us ?l) \<noteq> None) \<and>
            length (warnings (adoptFirst tf us ?l)) = length (warnings ?l) + length us"
    using Cons by simp
  show ?case
  proof (cases "us = []")
    case True
    then show ?thesis using step by simp
  next
    case False
    then show ?thesis using step IH by simp
  qed
qed

lemma adoptFirst_first_resolves:
  "tf u = Inr d \<Longrightarrow>
   adoptFirst tf (u # us) l =
     l\<lparr>collection := (if isArray d then d else JArray []), lastErr := None,
       requested := requested l @ [u]\<rparr>"
  by simp

lemma overrideFirst_collection:
  "collection (overrideFirst tf us l) =
     (case firstResolved tf us of
        None \<Rightarrow> collection l
      | Some d \<Rightarrow> if nonEmptyArray d then d else collection l)"
  by (induction us arbitrary: l) (auto split: sum.splits option.splits)

lemma nonEmptyArray_iff: "nonEmptyArray d \<longleftrightarrow> (\<exists>xs. d = JArray xs \<and> xs \<noteq> [])"
  by (cases d) (auto simp: nonEmptyArray_def)

lemma isArray_embeddedList: "isArray (embeddedList e)"
  by (auto simp: embeddedList_def split: option.splits)

lemma nonEmptyArray_isArray: "nonEmptyArray d \<Longrightarrow> isArray d"
  by (cases d) (auto simp: nonEmptyArray_def)

lemma firstResolved_all_fail:
  "\<forall>u\<in>set us. \<exists>e. tf u = Inl e \<Longrightarrow> firstResolved tf us = None"
  by (induction us) auto

lemma firstResolved_hd:
  "us \<noteq> [] \<Longrightarrow> tf (hd us) = Inr d \<Longrightarrow> firstResolved tf us = Some d"
  by (cases us) auto

lemma adoptFirst_hd_resolves:
  assumes "us \<noteq> []" and "tf (hd us) = Inr d"
  shows "adoptFirst tf us l =
           l\<lparr>collection := (if isArray d then d else JArray []), lastErr := None,
             requested := requested l @ [hd us]\<rparr>"
proof -
  obtain u rest where us: "us = u # rest" using assms(1) by (cases us) auto
  with assms(2) have "tf u = Inr d" by simp
  then show ?thesis unfolding us by simp
qed

text \<open>
  C3, as the code has it. In \<^verbatim>\<open>loadModules\<close> and \<^verbatim>\<open>loadCommunityDatasets\<close>: when
  every candidate fails (\<^verbatim>\<open>tryFetch\<close> rejects), the collection keeps its prior value,
  every candidate has been requested and the error ref holds the (non-empty) message. When
  the first candidate resolves, no other candidate is requested and the error ref is
  empty; its payload is adopted if it is an array, and the empty array is stored in its
  place if it is not (\<^verbatim>\<open>Array.isArray(data) ? data : []\<close>).
\<close>

theorem candidate_fallback:
  "((\<forall>u\<in>set (candidateUrls now B ''modules.json''). \<exists>e. tryFetch_modules net u = Inl e) \<longrightarrow>
      modules (final (loadModules net B now st)) = modules st \<and>
      modules_error (final (loadModules net B now st)) =
        ''Failed to load modules. Please try again later.'' \<and>
      modules_error (final (loadModules net B now st)) \<noteq> [] \<and>
      requests (loadModules net B now st) = candidateUrls now B ''modules.json'') \<and>
   (tryFetch_modules net (hd (candidateUrls now B ''modules.json'')) = Inr d \<longrightarrow>
      modules (final (loadModules net B now st)) = (if isArray d then d else JArray []) \<and>
      modules_error (final (loadModules net B now st)) = [] \<and>
      requests (loadModules net B now st) = [hd (candidateUrls now B ''modules.json'')]) \<and>
   ((\<forall>u\<in>set (candidateUrls now B ''datasets.json''). \<exists>e. tryFetch_datasets net' u = Inl e) \<longrightarrow>
      communityDatasets (final (loadCommunityDatasets net' B now st')) = communityDatasets st' \<and>
      error (final (loadCommunityDatasets net' B now st')) =
        ''Failed to load community datasets. Please try again later.'' \<and>
      error (final (loadCommunityDatasets net' B now st')) \<noteq> [] \<and>
      requests (loadCommunityDatasets net' B now st') = candidateUrls now B ''datasets.json'') \<and>
   (tryFetch_datasets net' (hd (candidateUrls now B ''datasets.json'')) = Inr d' \<longrightarrow>
      communityDatasets (final (loadCommunityDatasets net' B now st')) =
        (if isArray d' then d' else JArray []) \<and>
      error (final (loadCommunityDatasets net' B now st')) = [] \<and>
      requests (loadCommunityDatasets net' B now st') = [hd (candidateUrls now B ''datasets.json'')])"
proof (intro conjI impI)
  let ?cm = "candidateUrls now B ''modules.json''"
  let ?cd = "candidateUrls now B ''datasets.json''"
  have nm: "?cm \<noteq> []" and nd: "?cd \<noteq> []" by (rule candidateUrls_nonempty)+
  {
    assume fail: "\<forall>u\<in>set ?cm. \<exists>e. tryFetch_modules net u = Inl e"
    note a = adoptFirst_all_fail [where tf = "tryFetch_modules net", OF fail]
    show "modules (final (loadModules net B now st)) = modules st"
      by (simp add: loadModules_def Let_def a)
    show "modules_error (final (loadModules net B now st)) =
            ''Failed to load modules. Please try again later.''"
      using a nm by (simp add: loadModules_def Let_def)
    then show "modules_error (final (loadModules net B now st)) \<noteq> []" by simp
    show "requests (loadModules net B now st) = ?cm"
      by (simp add: loadModules_def Let_def a)
  }
  {
    assume res: "tryFetch_modules net (hd ?cm) = Inr d"
    note a = adoptFirst_hd_resolves [where tf = "tryFetch_modules net" and d = d, OF nm res]
    show "modules (final (loadModules net B now st)) = (if isArray d then d else JArray [])"
      by (simp add: loadModules_def Let_def a)
    show "modules_error (final (loadModules net B now st)) = []"
      by (simp add: loadModules_def Let_def a)
    show "requests (loadModules net B now st) = [hd ?cm]"
      by (simp add: loadModules_def Let_def a)
  }
  {
    assume fail: "\<forall>u\<in>set ?cd. \<exists>e. tryFetch_datasets net' u = Inl e"
    note a = adoptFirst_all_fail [where tf = "tryFetch_datasets net'", OF fail]
    show "communityDatasets (final (loadCommunityDatasets net' B now st')) = communityDatasets st'"
      by (simp add: loadCommunityDatasets_def Let_def a)
    show "error (final (loadCommunityDatasets net' B now st')) =
            ''Failed to load community datasets. Please try again later.''"
      using a nd by (simp add: loadCommunityDatasets_def Let_def)
    then show "error (final (loadCommunityDatasets net' B now st')) \<noteq> []" by simp
    show "requests (loadCommunityDatasets net' B now st') = ?cd"
      by (simp add: loadCommunityDatasets_def Let_def a)
  }
  {
    assume res: "tryFetch_datasets net' (hd ?cd) = Inr d'"
    note a = adoptFirst_hd_resolves [where tf = "tryFetch_datasets net'" and d = d', OF nd res]
    show "communityDatasets (final (loadCommunityDatasets net' B now st')) =
            (if isArray d' then d' else JArray [])"
      by (simp add: loadCommunityDatasets_def Let_def a)
    show "error (final (loadCommunityDatasets net' B now st')) = []"
      by (simp add: loadCommunityDatasets_def Let_def a)
    show "requests (loadCommunityDatasets net' B now st') = [hd ?cd]"
      by (simp add: loadCommunityDatasets_def Let_def a)
  }
qed

lemma candidates_root_modules:
  "candidateUrls clock ''/'' ''modules.json'' =
     [''/modules.json?ts=1700000000000'', ''modules.json?ts=1700000000001'']"
  by (simp add: candidateUrls_def newSet_def setAdd_def normalizeBase_def replaceEmpty_def
      replaceTrailingSlashes_def clock_def decimal.simps char_of_eq_iff)

lemma candidates_root_datasets:
  "candidateUrls clock ''/'' ''datasets.json'' =
     [''/datasets.json?ts=1700000000000'', ''datasets.json?ts=1700000000001'']"
  by (simp add: candidateUrls_def newSet_def setAdd_def normalizeBase_def replaceEmpty_def
      replaceTrailingSlashes_def clock_def decimal.simps char_of_eq_iff)

theorem candidate_fallback_witness:
  "modules (final (loadModules (offline :: string network) ''/'' clock
      (modules_view_init\<lparr>modules := JArray [''old'']\<rparr>))) = JArray [''old''] \<and>
   modules_error (final (loadModules (offline :: string network) ''/'' clock
      (modules_view_init\<lparr>modules := JArray [''old'']\<rparr>))) =
      ''Failed to load modules. Please try again later.'' \<and>
   requests (loadModules (offline :: string network) ''/'' clock
      (modules_view_init\<lparr>modules := JArray [''old'']\<rparr>)) =
      [''/modules.json?ts=1700000000000'', ''modules.json?ts=1700000000001''] \<and>
   modules (final (loadModules firstServes ''/'' clock modules_view_init)) = JArray [''a'', ''b''] \<and>
   modules_error (final (loadModules firstServes ''/'' clock modules_view_init)) = [] \<and>
   requests (loadModules firstServes ''/'' clock modules_view_init) =
      [''/modules.json?ts=1700000000000''] \<and>
   communityDatasets (final (loadCommunityDatasets (offline :: string network) ''/'' clock
      ((datasets_view_init :: (string, string) datasets_view)
         \<lparr>communityDatasets := JArray [''old'']\<rparr>))) = JArray [''old''] \<and>
   error (final (loadCommunityDatasets (offline :: string network) ''/'' clock
      ((datasets_view_init :: (string, string) datasets_view)
         \<lparr>communityDatasets := JArray [''old'']\<rparr>))) =
      ''Failed to load community datasets. Please try again later.'' \<and>
   requests (loadCommunityDatasets (offline :: string network) ''/'' clock
      ((datasets_view_init :: (string, string) datasets_view)
         \<lparr>communityDatasets := JArray [''old'']\<rparr>)) =
      [''/datasets.json?ts=1700000000000'', ''datasets.json?ts=1700000000001''] \<and>
   communityDatasets (final (loadCommunityDatasets firstServes ''/'' clock
      (datasets_view_init :: (string, string) datasets_view))) = JArray [''a'', ''b''] \<and>
   error (final (loadCommunityDatasets firstServes ''/'' clock
      (datasets_view_init :: (string, string) datasets_view))) = [] \<and>
   requests (loadCommunityDatasets firstServes ''/'' clock
      (datasets_view_init :: (string, string) datasets_view)) =
      [''/datasets.json?ts=1700000000000'']"
proof -
  have failm: "\<forall>u\<in>set (candidateUrls clock ''/'' ''modules.json'').
                 \<exists>e. tryFetch_modules (offline :: string network) u = Inl e"
    by (simp add: tryFetch_modules_def offline_def)
  have faild: "\<forall>u\<in>set (candidateUrls clock ''/'' ''datasets.json'').
                 \<exists>e. tryFetch_datasets (offline :: string network) u = Inl e"
    by (simp add: tryFetch_datasets_def offline_def)
  have resm: "tryFetch_modules firstServes (hd (candidateUrls clock ''/'' ''modules.json'')) =
                Inr (JArray [''a'', ''b''])"
    by (simp add: candidates_root_modules tryFetch_modules_def firstServes_def ok_def)
  have resd: "tryFetch_datasets firstServes (hd (candidateUrls clock ''/'' ''datasets.json'')) =
                Inr (JArray [''a'', ''b''])"
    by (simp add: candidates_root_datasets tryFetch_datasets_def firstServes_def ok_def)
  note T1 = candidate_fallback [where net = "offline :: string network" and B = "''/''"
      and now = clock and st = "modules_view_init\<lparr>modules := JArray [''old'']\<rparr>"
      and net' = "offline :: string network"
      and st' = "(datasets_view_init :: (string, string) datasets_view)
                   \<lparr>communityDatasets := JArray [''old'']\<rparr>"]
  note T2 = candidate_fallback [where net = firstServes and B = "''/''" and now = clock
      and st = modules_view_init and d = "JArray [''a'', ''b'']"
      and net' = firstServes and d' = "JArray [''a'', ''b'']"
      and st' = "datasets_view_init :: (string, string) datasets_view"]
  note A1 = T1 [THEN conjunct1, THEN mp, OF failm]
  note A2 = T2 [THEN conjunct2, THEN conjunct1, THEN mp, OF resm]
  note A3 = T1 [THEN conjunct2, THEN conjunct2, THEN conjunct1, THEN mp, OF faild]
  note A4 = T2 [THEN conjunct2, THEN conjunct2, THEN conjunct2, THEN mp, OF resd]
  have m: "modules (modules_view_init\<lparr>modules := JArray [''old'']\<rparr>) =
             (JArray [''old''] :: string json)"
    by simp
  have c: "communityDatasets ((datasets_view_init :: (string, string) datasets_view)
             \<lparr>communityDatasets := JArray [''old'']\<rparr>) = JArray [''old'']"
    by simp
  from A1 A2 A3 A4 show ?thesis
    by (simp add: candidates_root_modules candidates_root_datasets m c)
qed

theorem first_payload_counterexample:
  "tryFetch_modules objectEverywhere ''/modules.json?ts=1700000000000'' =
     Inr (JObject [(''error'', JString ''moved'')]) \<and>
   modules (final (loadModules objectEverywhere ''/'' clock
      (modules_view_init\<lparr>modules := JArray [''old'']\<rparr>))) = JArray [] \<and>
   modules_error (final (loadModules objectEverywhere ''/'' clock
      (modules_view_init\<lparr>modules := JArray [''old'']\<rparr>))) = [] \<and>
   requests (loadModules objectEverywhere ''/'' clock
      (modules_view_init\<lparr>modules := JArray [''old'']\<rparr>)) =
      [''/modules.json?ts=1700000000000''] \<and>
   tryFetch_datasets objectEverywhere ''/datasets.json?ts=1700000000000'' =
     Inr (JObject [(''error'', JString ''moved'')]) \<and>
   communityDatasets (final (loadCommunityDatasets objectEverywhere ''/'' clock
      ((datasets_view_init :: (string, string) datasets_view)
         \<lparr>communityDatasets := JArray [''old'']\<rparr>))) = JArray [] \<and>
   error (final (loadCommunityDatasets objectEverywhere ''/'' clock
      ((datasets_view_init :: (string, string) datasets_view)
         \<lparr>communityDatasets := JArray [''old'']\<rparr>))) = [] \<and>
   requests (loadCommunityDatasets objectEverywhere ''/'' clock
      ((datasets_view_init :: (string, string) datasets_view)
         \<lparr>communityDatasets := JArray [''old'']\<rparr>)) =
      [''/datasets.json?ts=1700000000000'']"
  by (simp add: candidates_root_modules candidates_root_datasets loadModules_def
      loadCommunityDatasets_def Let_def tryFetch_modules_def tryFetch_datasets_def
      objectEverywhere_def ok_def modules_view_init_def datasets_view_init_def)

text \<open>
  C5. After \<^verbatim>\<open>loadSdrbenchDatasets\<close> the benchmark collection is the payload of the first
  candidate that resolves if that payload is a non-empty array, and the embedded list
  (\<^verbatim>\<open>Array.isArray(SDRBENCH_EMBEDDED) ? SDRBENCH_EMBEDDED : []\<close>) in every other case,
  in particular when every candidate fails; \<open>sdrError\<close> is empty afterwards and the
  community error and collection are untouched.
\<close>

theorem sdrbench_override:
  "(\<forall>xs. firstResolved (tryFetch_datasets net) (candidateUrls now B ''sdrbench-datasets.json'') =
           Some (JArray xs) \<and> xs \<noteq> [] \<longrightarrow>
         sdrbenchDatasets (final (loadSdrbenchDatasets net B now emb st)) = JArray xs) \<and>
   ((\<nexists>xs. firstResolved (tryFetch_datasets net) (candidateUrls now B ''sdrbench-datasets.json'') =
           Some (JArray xs) \<and> xs \<noteq> []) \<longrightarrow>
         sdrbenchDatasets (final (loadSdrbenchDatasets net B now emb st)) = embeddedList emb) \<and>
   ((\<forall>u\<in>set (candidateUrls now B ''sdrbench-datasets.json''). \<exists>e. tryFetch_datasets net u = Inl e) \<longrightarrow>
         sdrbenchDatasets (final (loadSdrbenchDatasets net B now emb st)) = embeddedList emb) \<and>
   sdrError (final (loadSdrbenchDatasets net B now emb st)) = [] \<and>
   error (final (loadSdrbenchDatasets net B now emb st)) = error st \<and>
   communityDatasets (final (loadSdrbenchDatasets net B now emb st)) = communityDatasets st"
proof -
  let ?cs = "candidateUrls now B ''sdrbench-datasets.json''"
  let ?tf = "tryFetch_datasets net"
  have coll: "sdrbenchDatasets (final (loadSdrbenchDatasets net B now emb st)) =
                (case firstResolved ?tf ?cs of
                   None \<Rightarrow> embeddedList emb
                 | Some d \<Rightarrow> if nonEmptyArray d then d else embeddedList emb)"
    by (simp add: loadSdrbenchDatasets_def Let_def overrideFirst_collection split: option.splits)
  have 1: "\<forall>xs. firstResolved ?tf ?cs = Some (JArray xs) \<and> xs \<noteq> [] \<longrightarrow>
             sdrbenchDatasets (final (loadSdrbenchDatasets net B now emb st)) = JArray xs"
    by (simp add: coll nonEmptyArray_def)
  have 2: "(\<nexists>xs. firstResolved ?tf ?cs = Some (JArray xs) \<and> xs \<noteq> []) \<longrightarrow>
             sdrbenchDatasets (final (loadSdrbenchDatasets net B now emb st)) = embeddedList emb"
    by (auto simp: coll nonEmptyArray_iff split: option.splits)
  have 3: "(\<forall>u\<in>set ?cs. \<exists>e. ?tf u = Inl e) \<longrightarrow>
             sdrbenchDatasets (final (loadSdrbenchDatasets net B now emb st)) = embeddedList emb"
    by (simp add: coll firstResolved_all_fail)
  have 4: "sdrError (final (loadSdrbenchDatasets net B now emb st)) = [] \<and>
           error (final (loadSdrbenchDatasets net B now emb st)) = error st \<and>
           communityDatasets (final (loadSdrbenchDatasets net B now emb st)) = communityDatasets st"
    by (simp add: loadSdrbenchDatasets_def Let_def)
  from 1 2 3 4 show ?thesis by blast
qed

lemma candidates_root_sdrbench:
  "candidateUrls clock ''/'' ''sdrbench-datasets.json'' =
     [''/sdrbench-datasets.json?ts=1700000000000'', ''sdrbench-datasets.json?ts=1700000000001'']"
  by (simp add: candidateUrls_def newSet_def setAdd_def normalizeBase_def replaceEmpty_def
      replaceTrailingSlashes_def clock_def decimal.simps char_of_eq_iff)

theorem sdrbench_override_witness:
  "sdrbenchDatasets (final (loadSdrbenchDatasets overrideServed ''/'' clock
      (Some (JArray [''CESM'', ''Hurricane'']))
      (datasets_view_init :: (string, string) datasets_view))) = JArray [''NYX''] \<and>
   sdrbenchDatasets (final (loadSdrbenchDatasets offline ''/'' clock
      (Some (JArray [''CESM'', ''Hurricane'']))
      (datasets_view_init :: (string, string) datasets_view))) = JArray [''CESM'', ''Hurricane''] \<and>
   sdrError (final (loadSdrbenchDatasets offline ''/'' clock
      (Some (JArray [''CESM'', ''Hurricane'']))
      (datasets_view_init :: (string, string) datasets_view))) = []"
proof -
  have served: "firstResolved (tryFetch_datasets overrideServed)
                  (candidateUrls clock ''/'' ''sdrbench-datasets.json'') = Some (JArray [''NYX''])"
    by (simp add: candidates_root_sdrbench tryFetch_datasets_def overrideServed_def ok_def)
  have fail: "\<forall>u\<in>set (candidateUrls clock ''/'' ''sdrbench-datasets.json'').
                \<exists>e. tryFetch_datasets (offline :: string network) u = Inl e"
    by (simp add: tryFetch_datasets_def offline_def)
  from served fail
    sdrbench_override [where net = overrideServed and B = "''/''" and now = clock
      and emb = "Some (JArray [''CESM'', ''Hurricane''])"
      and st = "datasets_view_init :: (string, string) datasets_view"]
    sdrbench_override [where net = "offline :: string network" and B = "''/''" and now = clock
      and emb = "Some (JArray [''CESM'', ''Hurricane''])"
      and st = "datasets_view_init :: (string, string) datasets_view"]
  show ?thesis
    by (simp add: embeddedList_def)
qed

text \<open>
  C10. The three loaders keep their collection an array: \<^verbatim>\<open>loadModules\<close> and
  \<^verbatim>\<open>loadCommunityDatasets\<close> leave an array if they found one (the refs start as the empty
  array), \<^verbatim>\<open>loadSdrbenchDatasets\<close> leaves an array always. When the first candidate that
  resolves brings a payload that is not an array, the first two store the empty array and
  the third keeps the embedded list.
\<close>

theorem collections_stay_arrays:
  "isArray (modules (modules_view_init :: 'a modules_view)) \<and>
   isArray (communityDatasets (datasets_view_init :: ('c, 's) datasets_view)) \<and>
   isArray (sdrbenchDatasets (datasets_view_init :: ('c, 's) datasets_view)) \<and>
   (isArray (modules st) \<longrightarrow> isArray (modules (final (loadModules net B now st)))) \<and>
   (isArray (communityDatasets dst) \<longrightarrow>
      isArray (communityDatasets (final (loadCommunityDatasets cnet B now dst)))) \<and>
   isArray (sdrbenchDatasets (final (loadSdrbenchDatasets snet B now emb dst))) \<and>
   (\<forall>d. firstResolved (tryFetch_modules net) (candidateUrls now B ''modules.json'') = Some d \<and>
        \<not> isArray d \<longrightarrow>
        modules (final (loadModules net B now st)) = JArray []) \<and>
   (\<forall>d. firstResolved (tryFetch_datasets cnet) (candidateUrls now B ''datasets.json'') = Some d \<and>
        \<not> isArray d \<longrightarrow>
        communityDatasets (final (loadCommunityDatasets cnet B now dst)) = JArray []) \<and>
   (\<forall>d. firstResolved (tryFetch_datasets snet) (candidateUrls now B ''sdrbench-datasets.json'') =
          Some d \<and> \<not> isArray d \<longrightarrow>
        sdrbenchDatasets (final (loadSdrbenchDatasets snet B now emb dst)) = embeddedList emb)"
proof -
  have m: "modules (final (loadModules net B now st)) =
             (case firstResolved (tryFetch_modules net) (candidateUrls now B ''modules.json'') of
                None \<Rightarrow> modules st
              | Some d \<Rightarrow> if isArray d then d else JArray [])"
    by (simp add: loadModules_def Let_def adoptFirst_collection split: option.splits)
  have c: "communityDatasets (final (loadCommunityDatasets cnet B now dst)) =
             (case firstResolved (tryFetch_datasets cnet) (candidateUrls now B ''datasets.json'') of
                None \<Rightarrow> communityDatasets dst
              | Some d \<Rightarrow> if isArray d then d else JArray [])"
    by (simp add: loadCommunityDatasets_def Let_def adoptFirst_collection split: option.splits)
  have s: "sdrbenchDatasets (final (loadSdrbenchDatasets snet B now emb dst)) =
             (case firstResolved (tryFetch_datasets snet)
                     (candidateUrls now B ''sdrbench-datasets.json'') of
                None \<Rightarrow> embeddedList emb
              | Some d \<Rightarrow> if nonEmptyArray d then d else embeddedList emb)"
    by (simp add: loadSdrbenchDatasets_def Let_def overrideFirst_collection split: option.splits)
  have 1: "isArray (modules (modules_view_init :: 'a modules_view)) \<and>
           isArray (communityDatasets (datasets_view_init :: ('c, 's) datasets_view)) \<and>
           isArray (sdrbenchDatasets (datasets_view_init :: ('c, 's) datasets_view))"
    by (simp add: modules_view_init_def datasets_view_init_def)
  have 2: "isArray (modules st) \<longrightarrow> isArray (modules (final (loadModules net B now st)))"
    by (simp add: m split: option.splits)
  have 3: "isArray (communityDatasets dst) \<longrightarrow>
           isArray (communityDatasets (final (loadCommunityDatasets cnet B now dst)))"
    by (simp add: c split: option.splits)
  have 4: "isArray (sdrbenchDatasets (final (loadSdrbenchDatasets snet B now emb dst)))"
    by (simp add: s isArray_embeddedList nonEmptyArray_isArray split: option.splits)
  have 5: "\<forall>d. firstResolved (tryFetch_modules net) (candidateUrls now B ''modules.json'') = Some d \<and>
             \<not> isArray d \<longrightarrow> modules (final (loadModules net B now st)) = JArray []"
    by (simp add: m)
  have 6: "\<forall>d. firstResolved (tryFetch_datasets cnet) (candidateUrls now B ''datasets.json'') = Some d \<and>
             \<not> isArray d \<longrightarrow>
             communityDatasets (final (loadCommunityDatasets cnet B now dst)) = JArray []"
    by (simp add: c)
  have 7: "\<forall>d. firstResolved (tryFetch_datasets snet)
                  (candidateUrls now B ''sdrbench-datasets.json'') = Some d \<and> \<not> isArray d \<longrightarrow>
             sdrbenchDatasets (final (loadSdrbenchDatasets snet B now emb dst)) = embeddedList emb"
    using nonEmptyArray_isArray by (auto simp: s)
  from 1 2 3 4 5 6 7 show ?thesis by blast
qed

theorem collections_stay_arrays_witness:
  "isArray (modules (final (loadModules objectThenArray ''/'' clock modules_view_init))) \<and>
   modules (final (loadModules objectThenArray ''/'' clock modules_view_init)) = JArray []"
proof -
  have init: "isArray (modules (modules_view_init :: string modules_view))"
    by (simp add: modules_view_init_def)
  have first: "firstResolved (tryFetch_modules objectThenArray)
                 (candidateUrls clock ''/'' ''modules.json'') =
               Some (JObject [(''error'', JString ''moved'')])"
    by (simp add: candidates_root_modules tryFetch_modules_def objectThenArray_def ok_def)
  have notarr: "\<not> isArray (JObject [(''error'', JString ''moved'')] :: string json)" by simp
  from init first notarr
    collections_stay_arrays [where net = objectThenArray and B = "''/''" and now = clock
      and st = modules_view_init and cnet = "offline :: string network"
      and snet = "offline :: string network" and emb = None
      and dst = "datasets_view_init :: (string, string) datasets_view"]
  show ?thesis by blast
qed

text \<open>
  C7, as the code has it. A candidate whose response is successful but whose body is not
  JSON is a failure: \<^verbatim>\<open>tryFetch\<close> rejects, the loop logs it and goes on with the next
  candidate. A candidate whose body is JSON but not an array is a success: the loop stops
  there without requesting the remaining candidates, storing the empty array
  (\<^verbatim>\<open>loadModules\<close>, \<^verbatim>\<open>loadCommunityDatasets\<close>) or keeping the collection
  (\<^verbatim>\<open>loadSdrbenchDatasets\<close>); the payload itself is never stored.
\<close>

theorem unparsable_body_advances:
  "(ok s \<and> net u = Response s None \<longrightarrow>
      tryFetch_modules net u = Inl BodyError \<and>
      tryFetch_datasets net u = Inl (InvalidJSON u) \<and>
      adoptFirst (tryFetch_modules net) (u # us) l =
        adoptFirst (tryFetch_modules net) us
          (l\<lparr>lastErr := Some BodyError, requested := requested l @ [u],
             warnings := warnings l @ [BodyError]\<rparr>) \<and>
      adoptFirst (tryFetch_datasets net) (u # us) l =
        adoptFirst (tryFetch_datasets net) us
          (l\<lparr>lastErr := Some (InvalidJSON u), requested := requested l @ [u],
             warnings := warnings l @ [InvalidJSON u]\<rparr>) \<and>
      overrideFirst (tryFetch_datasets net) (u # us) l =
        overrideFirst (tryFetch_datasets net) us
          (l\<lparr>requested := requested l @ [u], warnings := warnings l @ [InvalidJSON u]\<rparr>)) \<and>
   (ok s \<and> net u = Response s (Some d) \<and> \<not> isArray d \<longrightarrow>
      adoptFirst (tryFetch_modules net) (u # us) l =
        l\<lparr>collection := JArray [], lastErr := None, requested := requested l @ [u]\<rparr> \<and>
      adoptFirst (tryFetch_datasets net) (u # us) l =
        l\<lparr>collection := JArray [], lastErr := None, requested := requested l @ [u]\<rparr> \<and>
      overrideFirst (tryFetch_datasets net) (u # us) l =
        l\<lparr>collection := collection l, requested := requested l @ [u]\<rparr>)"
proof (intro conjI impI)
  {
    assume a: "ok s \<and> net u = Response s None"
    then show m: "tryFetch_modules net u = Inl BodyError"
      by (simp add: tryFetch_modules_def)
    from a show d: "tryFetch_datasets net u = Inl (InvalidJSON u)"
      by (simp add: tryFetch_datasets_def)
    from m show "adoptFirst (tryFetch_modules net) (u # us) l =
        adoptFirst (tryFetch_modules net) us
          (l\<lparr>lastErr := Some BodyError, requested := requested l @ [u],
             warnings := warnings l @ [BodyError]\<rparr>)"
      by simp
    from d show "adoptFirst (tryFetch_datasets net) (u # us) l =
        adoptFirst (tryFetch_datasets net) us
          (l\<lparr>lastErr := Some (InvalidJSON u), requested := requested l @ [u],
             warnings := warnings l @ [InvalidJSON u]\<rparr>)"
      by simp
    from d show "overrideFirst (tryFetch_datasets net) (u # us) l =
        overrideFirst (tryFetch_datasets net) us
          (l\<lparr>requested := requested l @ [u], warnings := warnings l @ [InvalidJSON u]\<rparr>)"
      by simp
  }
  {
    assume a: "ok s \<and> net u = Response s (Some d) \<and> \<not> isArray d"
    then have m: "tryFetch_modules net u = Inr d"
      by (simp add: tryFetch_modules_def)
    from a have t: "tryFetch_datasets net u = Inr d"
      by (simp add: tryFetch_datasets_def)
    from a have n: "\<not> nonEmptyArray d" using nonEmptyArray_isArray by blast
    from m a show "adoptFirst (tryFetch_modules net) (u # us) l =
        l\<lparr>collection := JArray [], lastErr := None, requested := requested l @ [u]\<rparr>"
      by simp
    from t a show "adoptFirst (tryFetch_datasets net) (u # us) l =
        l\<lparr>collection := JArray [], lastErr := None, requested := requested l @ [u]\<rparr>"
      by simp
    from t n show "overrideFirst (tryFetch_datasets net) (u # us) l =
        l\<lparr>collection := collection l, requested := requested l @ [u]\<rparr>"
      by simp
  }
qed

theorem unparsable_body_advances_witness:
  "adoptFirst (tryFetch_modules htmlThenArray)
     [''/modules.json?ts=1700000000000'', ''modules.json?ts=1700000000001'']
     \<lparr>collection = JArray [], lastErr = None, requested = [], warnings = []\<rparr> =
   \<lparr>collection = JArray [''a''], lastErr = None,
     requested = [''/modules.json?ts=1700000000000'', ''modules.json?ts=1700000000001''],
     warnings = [BodyError]\<rparr> \<and>
   adoptFirst (tryFetch_modules objectThenArray)
     [''/modules.json?ts=1700000000000'', ''modules.json?ts=1700000000001'']
     \<lparr>collection = JArray [''old''], lastErr = None, requested = [], warnings = []\<rparr> =
   \<lparr>collection = JArray [], lastErr = None,
     requested = [''/modules.json?ts=1700000000000''], warnings = []\<rparr>"
proof -
  have h: "ok 200 \<and> htmlThenArray ''/modules.json?ts=1700000000000'' = Response 200 None"
    by (simp add: ok_def htmlThenArray_def)
  have o: "ok 200 \<and>
           objectThenArray ''/modules.json?ts=1700000000000'' =
             Response 200 (Some (JObject [(''error'', JString ''moved'')])) \<and>
           \<not> isArray (JObject [(''error'', JString ''moved'')] :: string json)"
    by (simp add: ok_def objectThenArray_def)
  have second: "tryFetch_modules htmlThenArray ''modules.json?ts=1700000000001'' =
                  Inr (JArray [''a''])"
    by (simp add: tryFetch_modules_def htmlThenArray_def ok_def)
  from h o second
    unparsable_body_advances [where s = 200 and net = htmlThenArray
      and u = "''/modules.json?ts=1700000000000''" and us = "[''modules.json?ts=1700000000001'']"
      and l = "\<lparr>collection = JArray [], lastErr = None, requested = [], warnings = []\<rparr>"
      and d = JNull]
    unparsable_body_advances [where s = 200 and net = objectThenArray
      and u = "''/modules.json?ts=1700000000000''" and us = "[''modules.json?ts=1700000000001'']"
      and l = "\<lparr>collection = JArray [''old''], lastErr = None, requested = [], warnings = []\<rparr>"
      and d = "JObject [(''error'', JString ''moved'')]"]
  show ?thesis by simp
qed

theorem malformed_payload_counterexample:
  "ok 200 \<and>
   objectThenArray ''/modules.json?ts=1700000000000'' =
     Response 200 (Some (JObject [(''error'', JString ''moved'')])) \<and>
   objectThenArray ''modules.json?ts=1700000000001'' = Response 200 (Some (JArray [''a''])) \<and>
   candidateUrls clock ''/'' ''modules.json'' =
     [''/modules.json?ts=1700000000000'', ''modules.json?ts=1700000000001''] \<and>
   requests (loadModules objectThenArray ''/'' clock modules_view_init) =
     [''/modules.json?ts=1700000000000''] \<and>
   modules (final (loadModules objectThenArray ''/'' clock modules_view_init)) = JArray [] \<and>
   modules_error (final (loadModules objectThenArray ''/'' clock modules_view_init)) = [] \<and>
   console (loadModules objectThenArray ''/'' clock modules_view_init) = []"
  by (simp add: candidates_root_modules loadModules_def Let_def tryFetch_modules_def
      objectThenArray_def ok_def modules_view_init_def)

text \<open>
  C6, as the code has it. \<^verbatim>\<open>loadCompositions\<close> makes one request, to
  \<^verbatim>\<open>BASE_URL + 'compositions.json'\<close> as it stands (no other candidate, no cache-busting
  parameter). When the fetch or the parsing of the body rejects, the view state is what it
  was and the error is written to the console only; when the body parses, its value is
  stored whatever the status.
\<close>

theorem compositions_single_fetch:
  "requests (loadCompositions net B st) = [B @ ''compositions.json''] \<and>
   (net (B @ ''compositions.json'') = Rejected \<longrightarrow>
      final (loadCompositions net B st) = st \<and>
      console (loadCompositions net B st) = [FetchError]) \<and>
   (\<forall>s. net (B @ ''compositions.json'') = Response s None \<longrightarrow>
      final (loadCompositions net B st) = st \<and>
      console (loadCompositions net B st) = [BodyError]) \<and>
   (\<forall>s d. net (B @ ''compositions.json'') = Response s (Some d) \<longrightarrow>
      final (loadCompositions net B st) = st\<lparr>compositions := d\<rparr> \<and>
      console (loadCompositions net B st) = [])"
  by (auto simp: loadCompositions_def Let_def split: fetch_outcome.splits option.splits)

theorem compositions_single_fetch_witness:
  "requests (loadCompositions (offline :: string network) ''/Z-Hub/''
      \<lparr>compositions = JArray [''old'']\<rparr>) = [''/Z-Hub/compositions.json''] \<and>
   final (loadCompositions (offline :: string network) ''/Z-Hub/''
      \<lparr>compositions = JArray [''old'']\<rparr>) = \<lparr>compositions = JArray [''old'']\<rparr> \<and>
   final (loadCompositions firstServes ''/Z-Hub/'' \<lparr>compositions = JArray [''old'']\<rparr>) =
      \<lparr>compositions = JArray [''old'']\<rparr>"
proof -
  have r: "(offline :: string network) (''/Z-Hub/'' @ ''compositions.json'') = Rejected"
    by (simp add: offline_def)
  have b: "firstServes (''/Z-Hub/'' @ ''compositions.json'') = Response 500 None"
    by (simp add: firstServes_def)
  from r b
    compositions_single_fetch [where net = "offline :: string network" and B = "''/Z-Hub/''"
      and st = "\<lparr>compositions = JArray [''old'']\<rparr>"]
    compositions_single_fetch [where net = firstServes and B = "''/Z-Hub/''"
      and st = "\<lparr>compositions = JArray [''old'']\<rparr>"]
  show ?thesis by simp
qed

theorem compositions_loader_counterexample:
  "loadCompositions (offline :: string network) ''/'' \<lparr>compositions = JArray [''old'']\<rparr> =
     \<lparr>final = \<lparr>compositions = JArray [''old'']\<rparr>, requests = [''/compositions.json''],
      console = [FetchError]\<rparr> \<and>
   length (requests (loadCompositions (offline :: string network) ''/''
      \<lparr>compositions = JArray [''old'']\<rparr>)) = 1 \<and>
   \<not> includes_of (hd (requests (loadCompositions (offline :: string network) ''/''
      \<lparr>compositions = JArray [''old'']\<rparr>))) ''?''"
  by (simp add: loadCompositions_def Let_def offline_def)

subsection \<open>The text filter\<close>

lemma startsWith_iff: "startsWith s q \<longleftrightarrow> (\<exists>ss. s = q @ ss)"
  by (induction s q rule: startsWith.induct) auto

lemma includes_of_iff: "includes_of s q \<longleftrightarrow> (\<exists>ps ss. s = ps @ q @ ss)"
proof (induction s)
  case Nil
  then show ?case by auto
next
  case (Cons c cs)
  have "(\<exists>ps ss. c # cs = ps @ q @ ss) \<longleftrightarrow>
        (\<exists>ss. c # cs = q @ ss) \<or> (\<exists>ps ss. cs = ps @ q @ ss)"
  proof
    assume "\<exists>ps ss. c # cs = ps @ q @ ss"
    then obtain ps ss where e: "c # cs = ps @ q @ ss" by blast
    show "(\<exists>ss. c # cs = q @ ss) \<or> (\<exists>ps ss. cs = ps @ q @ ss)"
    proof (cases ps)
      case Nil
      with e show ?thesis by auto
    next
      case (Cons p ps')
      with e have "cs = ps' @ q @ ss" by simp
      then show ?thesis by blast
    qed
  next
    assume "(\<exists>ss. c # cs = q @ ss) \<or> (\<exists>ps ss. cs = ps @ q @ ss)"
    then show "\<exists>ps ss. c # cs = ps @ q @ ss"
    proof
      assume "\<exists>ss. c # cs = q @ ss"
      then obtain ss where "c # cs = [] @ q @ ss" by auto
      then show ?thesis by blast
    next
      assume "\<exists>ps ss. cs = ps @ q @ ss"
      then obtain ps ss where "c # cs = (c # ps) @ q @ ss" by auto
      then show ?thesis by blast
    qed
  qed
  with Cons show ?case by (simp add: startsWith_iff)
qed

lemma some_iff: "some p xs \<longleftrightarrow> (\<exists>x\<in>set xs. p x)"
  by (induction xs) auto

lemma some_append: "some p (xs @ ys) \<longleftrightarrow> some p xs \<or> some p ys"
  by (auto simp: some_iff)

lemma some_capabilities:
  "some p (concat (map (\<lambda>cap. [cap_name cap, cap_description cap]) caps)) \<longleftrightarrow>
   some (\<lambda>cap. p (cap_name cap) \<or> p (cap_description cap)) caps"
  by (induction caps) auto

lemma filterE_total:
  "\<forall>x\<in>set xs. p x = Inr (P x) \<Longrightarrow> filterE p xs = Inr (filter P xs)"
  by (induction xs) auto

lemma filterE_returns:
  "filterE p xs = Inr ys \<Longrightarrow> \<forall>x\<in>set xs. \<forall>b. p x = Inr b \<longrightarrow> b = P x \<Longrightarrow> ys = filter P xs"
proof (induction xs arbitrary: ys)
  case Nil
  then show ?case by simp
next
  case (Cons x xs)
  from Cons.prems(1) obtain b zs where b: "p x = Inr b" and zs: "filterE p xs = Inr zs"
    and ys: "ys = (if b then x # zs else zs)"
    by (auto split: sum.splits)
  from Cons.prems(2) b have "b = P x" by simp
  moreover from Cons.IH [OF zs] Cons.prems(2) have "zs = filter P xs" by simp
  ultimately show ?case using ys by simp
qed

lemma matchesComposition_tagged:
  "c_tags c \<noteq> None \<Longrightarrow>
   matchesComposition lc (lc q) c = Inr (textMatch lc q (searchable_composition c))"
  by (auto simp: matchesComposition_def textMatch_def searchable_composition_def orNone_def
      some_append some_capabilities split: option.splits)

lemma matchesComposition_untagged:
  "c_tags c = None \<Longrightarrow>
   matchesComposition lc query c =
     (if includes_of (lc (c_name c)) query \<or> includes_of (lc (c_description c)) query
      then Inr True else Inl TypeError)"
  by (simp add: matchesComposition_def)

lemma matchesComposition_returns:
  "matchesComposition lc (lc q) c = Inr b \<Longrightarrow> b = textMatch lc q (searchable_composition c)"
proof (cases "c_tags c")
  case None
  assume r: "matchesComposition lc (lc q) c = Inr b"
  with None have "b = True \<and> (includes_of (lc (c_name c)) (lc q) \<or>
                              includes_of (lc (c_description c)) (lc q))"
    by (auto simp: matchesComposition_untagged split: if_splits)
  then show ?thesis
    by (auto simp: textMatch_def searchable_composition_def)
next
  case (Some ts)
  assume "matchesComposition lc (lc q) c = Inr b"
  with Some show ?thesis by (simp add: matchesComposition_tagged)
qed

lemma matchesModule_tagged:
  "m_tags m \<noteq> None \<Longrightarrow>
   matchesModule lc (lc q) m = Inr (textMatch lc q (searchable_module m))"
  by (auto simp: matchesModule_def textMatch_def searchable_module_def orNone_def
      split: option.splits)

lemma matchesModule_untagged:
  "m_tags m = None \<Longrightarrow>
   matchesModule lc query m =
     (if includes_of (lc (m_name m)) query \<or> includes_of (lc (m_description m)) query
      then Inr True else Inl TypeError)"
  by (simp add: matchesModule_def)

lemma matchesModule_returns:
  "matchesModule lc (lc q) m = Inr b \<Longrightarrow> b = textMatch lc q (searchable_module m)"
proof (cases "m_tags m")
  case None
  assume r: "matchesModule lc (lc q) m = Inr b"
  with None have "b = True \<and> (includes_of (lc (m_name m)) (lc q) \<or>
                              includes_of (lc (m_description m)) (lc q))"
    by (auto simp: matchesModule_untagged split: if_splits)
  then show ?thesis
    by (auto simp: textMatch_def searchable_module_def)
next
  case (Some ts)
  assume "matchesModule lc (lc q) m = Inr b"
  with Some show ?thesis by (simp add: matchesModule_tagged)
qed

lemma filteredCompositions_tagged:
  assumes "\<forall>c\<in>set cs. c_tags c \<noteq> None"
  shows "filteredCompositions lc cs sel q =
           Inr (filter (\<lambda>c. (sel = ''All'' \<or> c_category c = sel) \<and>
                            (q = [] \<or> textMatch lc q (searchable_composition c))) cs)"
proof (cases "q = []")
  case True
  then show ?thesis by (simp add: filteredCompositions_def)
next
  case False
  let ?f = "if sel \<noteq> ''All'' then filter (\<lambda>c. c_category c = sel) cs else cs"
  have "\<forall>c\<in>set ?f. matchesComposition lc (lc q) c =
          Inr (textMatch lc q (searchable_composition c))"
    using assms by (simp add: matchesComposition_tagged)
  then have "filterE (matchesComposition lc (lc q)) ?f =
               Inr (filter (\<lambda>c. textMatch lc q (searchable_composition c)) ?f)"
    by (rule filterE_total)
  with False show ?thesis
    by (auto simp: filteredCompositions_def Let_def intro: filter_cong)
qed

lemma filteredCompositions_returns:
  assumes "filteredCompositions lc cs sel q = Inr ys"
  shows "ys = filter (\<lambda>c. (sel = ''All'' \<or> c_category c = sel) \<and>
                          (q = [] \<or> textMatch lc q (searchable_composition c))) cs"
proof (cases "q = []")
  case True
  with assms show ?thesis by (auto simp: filteredCompositions_def)
next
  case False
  let ?f = "if sel \<noteq> ''All'' then filter (\<lambda>c. c_category c = sel) cs else cs"
  from assms False have "filterE (matchesComposition lc (lc q)) ?f = Inr ys"
    by (simp add: filteredCompositions_def Let_def)
  then have "ys = filter (\<lambda>c. textMatch lc q (searchable_composition c)) ?f"
    by (rule filterE_returns) (simp add: matchesComposition_returns)
  with False show ?thesis by (auto intro: filter_cong)
qed

lemma filteredModules_tagged:
  assumes "\<forall>m\<in>set ms. m_tags m \<noteq> None"
  shows "filteredModules lc ms q sel =
           Inr (filter (\<lambda>m. (q = [] \<or> textMatch lc q (searchable_module m)) \<and>
                            (sel = ''all'' \<or> m_category m = sel)) ms)"
proof (cases "q = []")
  case True
  then show ?thesis by (simp add: filteredModules_def)
next
  case False
  have "\<forall>m\<in>set ms. matchesModule lc (lc q) m = Inr (textMatch lc q (searchable_module m))"
    using assms by (simp add: matchesModule_tagged)
  then have "filterE (matchesModule lc (lc q)) ms =
               Inr (filter (\<lambda>m. textMatch lc q (searchable_module m)) ms)"
    by (rule filterE_total)
  with False show ?thesis
    by (auto simp: filteredModules_def intro: filter_cong)
qed

lemma filteredModules_returns:
  assumes "filteredModules lc ms q sel = Inr ys"
  shows "ys = filter (\<lambda>m. (q = [] \<or> textMatch lc q (searchable_module m)) \<and>
                          (sel = ''all'' \<or> m_category m = sel)) ms"
proof (cases "q = []")
  case True
  with assms show ?thesis by (auto simp: filteredModules_def)
next
  case False
  from assms False obtain zs where zs: "filterE (matchesModule lc (lc q)) ms = Inr zs"
    and ys: "ys = (if sel \<noteq> ''all'' then filter (\<lambda>m. m_category m = sel) zs else zs)"
    by (auto simp: filteredModules_def split: sum.splits)
  from zs have "zs = filter (\<lambda>m. textMatch lc q (searchable_module m)) ms"
    by (rule filterE_returns) (simp add: matchesModule_returns)
  with False ys show ?thesis by (auto intro: filter_cong)
qed

text \<open>
  C1, as the code has it. For a non-empty query, the compositions filter retains exactly
  the items of the selected category (all items under the sentinel) whose name,
  description, a tag, a "used in" entry or a capability's name or description contains the
  lower-cased query after lower-casing; the modules filter retains exactly the items whose
  name, description or a tag does, and that have the selected category: feature strings
  are not searched. Both hold whenever the filter returns, and it returns when every item
  has a tag list.
\<close>

theorem search_filter_retains:
  "searchQuery \<noteq> [] \<longrightarrow>
     ((\<forall>c\<in>set cs. c_tags c \<noteq> None) \<longrightarrow>
        filteredCompositions lc cs sel searchQuery =
          Inr (filter (\<lambda>c. (sel = ''All'' \<or> c_category c = sel) \<and>
                           textMatch lc searchQuery (searchable_composition c)) cs)) \<and>
     (\<forall>ys. filteredCompositions lc cs sel searchQuery = Inr ys \<longrightarrow>
        ys = filter (\<lambda>c. (sel = ''All'' \<or> c_category c = sel) \<and>
                         textMatch lc searchQuery (searchable_composition c)) cs) \<and>
     ((\<forall>m\<in>set ms. m_tags m \<noteq> None) \<longrightarrow>
        filteredModules lc ms searchQuery sel' =
          Inr (filter (\<lambda>m. textMatch lc searchQuery (searchable_module m) \<and>
                           (sel' = ''all'' \<or> m_category m = sel')) ms)) \<and>
     (\<forall>ys. filteredModules lc ms searchQuery sel' = Inr ys \<longrightarrow>
        ys = filter (\<lambda>m. textMatch lc searchQuery (searchable_module m) \<and>
                         (sel' = ''all'' \<or> m_category m = sel')) ms)"
proof
  assume q: "searchQuery \<noteq> []"
  have 1: "(\<forall>c\<in>set cs. c_tags c \<noteq> None) \<longrightarrow>
        filteredCompositions lc cs sel searchQuery =
          Inr (filter (\<lambda>c. (sel = ''All'' \<or> c_category c = sel) \<and>
                           textMatch lc searchQuery (searchable_composition c)) cs)"
    using q by (simp add: filteredCompositions_tagged)
  have 2: "\<forall>ys. filteredCompositions lc cs sel searchQuery = Inr ys \<longrightarrow>
        ys = filter (\<lambda>c. (sel = ''All'' \<or> c_category c = sel) \<and>
                         textMatch lc searchQuery (searchable_composition c)) cs"
    using q filteredCompositions_returns [of lc cs sel searchQuery] by simp
  have 3: "(\<forall>m\<in>set ms. m_tags m \<noteq> None) \<longrightarrow>
        filteredModules lc ms searchQuery sel' =
          Inr (filter (\<lambda>m. textMatch lc searchQuery (searchable_module m) \<and>
                           (sel' = ''all'' \<or> m_category m = sel')) ms)"
    using q by (simp add: filteredModules_tagged)
  have 4: "\<forall>ys. filteredModules lc ms searchQuery sel' = Inr ys \<longrightarrow>
        ys = filter (\<lambda>m. textMatch lc searchQuery (searchable_module m) \<and>
                         (sel' = ''all'' \<or> m_category m = sel')) ms"
    using q filteredModules_returns [of lc ms searchQuery sel'] by simp
  from 1 2 3 4 show
    "((\<forall>c\<in>set cs. c_tags c \<noteq> None) \<longrightarrow>
        filteredCompositions lc cs sel searchQuery =
          Inr (filter (\<lambda>c. (sel = ''All'' \<or> c_category c = sel) \<and>
                           textMatch lc searchQuery (searchable_composition c)) cs)) \<and>
     (\<forall>ys. filteredCompositions lc cs sel searchQuery = Inr ys \<longrightarrow>
        ys = filter (\<lambda>c. (sel = ''All'' \<or> c_category c = sel) \<and>
                         textMatch lc searchQuery (searchable_composition c)) cs) \<and>
     ((\<forall>m\<in>set ms. m_tags m \<noteq> None) \<longrightarrow>
        filteredModules lc ms searchQuery sel' =
          Inr (filter (\<lambda>m. textMatch lc searchQuery (searchable_module m) \<and>
                           (sel' = ''all'' \<or> m_category m = sel')) ms)) \<and>
     (\<forall>ys. filteredModules lc ms searchQuery sel' = Inr ys \<longrightarrow>
        ys = filter (\<lambda>m. textMatch lc searchQuery (searchable_module m) \<and>
                         (sel' = ''all'' \<or> m_category m = sel')) ms)"
    by blast
qed

theorem search_filter_retains_witness:
  "''LibPressio'' \<noteq> [] \<and> c_tags sz3 \<noteq> None \<and> c_tags cuszp \<noteq> None \<and>
   m_tags rle \<noteq> None \<and> m_tags lorenzo \<noteq> None \<and> m_tags huffman \<noteq> None \<and>
   filteredCompositions toLowerCaseASCII [sz3, cuszp] ''All'' ''LibPressio'' = Inr [sz3] \<and>
   filteredModules toLowerCaseASCII [rle, lorenzo, huffman] ''LibPressio'' ''all'' = Inr []"
proof -
  have q: "''LibPressio'' \<noteq> []" by simp
  have c: "\<forall>c\<in>set [sz3, cuszp]. c_tags c \<noteq> None" by (simp add: sz3_def cuszp_def)
  have m: "\<forall>m\<in>set [rle, lorenzo, huffman]. m_tags m \<noteq> None"
    by (simp add: rle_def lorenzo_def huffman_def)
  have s1: "textMatch toLowerCaseASCII ''LibPressio'' (searchable_composition sz3)"
    by code_simp
  have s2: "\<not> textMatch toLowerCaseASCII ''LibPressio'' (searchable_composition cuszp)"
    by code_simp
  have s3: "\<not> textMatch toLowerCaseASCII ''LibPressio'' (searchable_module rle) \<and>
            \<not> textMatch toLowerCaseASCII ''LibPressio'' (searchable_module lorenzo) \<and>
            \<not> textMatch toLowerCaseASCII ''LibPressio'' (searchable_module huffman)"
    by code_simp
  note T = search_filter_retains [where searchQuery = "''LibPressio''" and cs = "[sz3, cuszp]"
      and ms = "[rle, lorenzo, huffman]" and lc = toLowerCaseASCII and sel = "''All''"
      and sel' = "''all''", THEN mp, OF q]
  note A = T [THEN conjunct1, THEN mp, OF c]
  note B = T [THEN conjunct2, THEN conjunct2, THEN conjunct1, THEN mp, OF m]
  have A': "filteredCompositions toLowerCaseASCII [sz3, cuszp] ''All'' ''LibPressio'' = Inr [sz3]"
    unfolding A using s1 s2 by simp
  have B': "filteredModules toLowerCaseASCII [rle, lorenzo, huffman] ''LibPressio'' ''all'' = Inr []"
    unfolding B using s3 by simp
  from q c m A' B' show ?thesis by simp
qed
theorem module_features_counterexample:
  "''fast'' \<noteq> [] \<and> m_features rle = [''fast''] \<and>
   includes_of (toLowerCaseASCII (hd (m_features rle))) (toLowerCaseASCII ''fast'') \<and>
   filteredModules toLowerCaseASCII [rle] ''fast'' ''all'' = Inr []"
  by code_simp

text \<open>
  C4, as the code has it. An item that has a tag list is matched without an exception,
  whether or not it has "used in" entries or capabilities, and a missing "used in" or
  capabilities collection counts as an empty one; so the filters return on collections
  whose items all have tag lists. An item without a tag list makes the filter throw a
  TypeError, unless its name or description already contains the query.
\<close>

theorem absent_collections:
  "(c_tags c \<noteq> None \<longrightarrow> (\<exists>b. matchesComposition lc query c = Inr b)) \<and>
   matchesComposition lc query (c\<lparr>c_usedIn := None\<rparr>) =
     matchesComposition lc query (c\<lparr>c_usedIn := Some []\<rparr>) \<and>
   matchesComposition lc query (c\<lparr>c_capabilities := None\<rparr>) =
     matchesComposition lc query (c\<lparr>c_capabilities := Some []\<rparr>) \<and>
   (m_tags m \<noteq> None \<longrightarrow> (\<exists>b. matchesModule lc query m = Inr b)) \<and>
   ((\<forall>c\<in>set cs. c_tags c \<noteq> None) \<longrightarrow>
      (\<exists>ys. filteredCompositions lc cs selectedCategory searchQuery = Inr ys)) \<and>
   ((\<forall>m\<in>set ms. m_tags m \<noteq> None) \<longrightarrow>
      (\<exists>ys. filteredModules lc ms searchQuery selectedCategory = Inr ys)) \<and>
   (c_tags c = None \<longrightarrow>
      matchesComposition lc query c =
        (if includes_of (lc (c_name c)) query \<or> includes_of (lc (c_description c)) query
         then Inr True else Inl TypeError)) \<and>
   (m_tags m = None \<longrightarrow>
      matchesModule lc query m =
        (if includes_of (lc (m_name m)) query \<or> includes_of (lc (m_description m)) query
         then Inr True else Inl TypeError))"
proof -
  have 1: "c_tags c \<noteq> None \<longrightarrow> (\<exists>b. matchesComposition lc query c = Inr b)"
    by (auto simp: matchesComposition_def split: option.splits)
  have 2: "matchesComposition lc query (c\<lparr>c_usedIn := None\<rparr>) =
             matchesComposition lc query (c\<lparr>c_usedIn := Some []\<rparr>)"
    by (simp add: matchesComposition_def split: option.splits)
  have 3: "matchesComposition lc query (c\<lparr>c_capabilities := None\<rparr>) =
             matchesComposition lc query (c\<lparr>c_capabilities := Some []\<rparr>)"
    by (simp add: matchesComposition_def split: option.splits)
  have 4: "m_tags m \<noteq> None \<longrightarrow> (\<exists>b. matchesModule lc query m = Inr b)"
    by (auto simp: matchesModule_def split: option.splits)
  have 5: "(\<forall>c\<in>set cs. c_tags c \<noteq> None) \<longrightarrow>
             (\<exists>ys. filteredCompositions lc cs selectedCategory searchQuery = Inr ys)"
    by (simp add: filteredCompositions_tagged)
  have 6: "(\<forall>m\<in>set ms. m_tags m \<noteq> None) \<longrightarrow>
             (\<exists>ys. filteredModules lc ms searchQuery selectedCategory = Inr ys)"
    by (simp add: filteredModules_tagged)
  have 7: "c_tags c = None \<longrightarrow>
      matchesComposition lc query c =
        (if includes_of (lc (c_name c)) query \<or> includes_of (lc (c_description c)) query
         then Inr True else Inl TypeError)"
    by (simp add: matchesComposition_untagged)
  have 8: "m_tags m = None \<longrightarrow>
      matchesModule lc query m =
        (if includes_of (lc (m_name m)) query \<or> includes_of (lc (m_description m)) query
         then Inr True else Inl TypeError)"
    by (simp add: matchesModule_untagged)
  from 1 2 3 4 5 6 7 8 show ?thesis by blast
qed

theorem absent_collections_witness:
  "c_tags cuszp \<noteq> None \<and> c_usedIn cuszp = None \<and> c_capabilities cuszp = None \<and>
   (\<exists>b. matchesComposition toLowerCaseASCII ''hpc'' cuszp = Inr b) \<and>
   (\<exists>ys. filteredCompositions toLowerCaseASCII [cuszp, sz3] ''All'' ''HPC'' = Inr ys) \<and>
   c_tags bare = None \<and>
   matchesComposition toLowerCaseASCII ''hpc'' bare = Inl TypeError \<and>
   m_tags untagged = None \<and>
   matchesModule toLowerCaseASCII ''bit'' untagged = Inr True"
proof -
  have t: "c_tags cuszp \<noteq> None" by (simp add: cuszp_def)
  have t': "c_usedIn cuszp = None \<and> c_capabilities cuszp = None" by (simp add: cuszp_def)
  have ts: "\<forall>c\<in>set [cuszp, sz3]. c_tags c \<noteq> None" by (simp add: cuszp_def sz3_def)
  have bn: "c_tags bare = None" by (simp add: bare_def)
  have b: "\<not> (includes_of (toLowerCaseASCII (c_name bare)) ''hpc'' \<or>
               includes_of (toLowerCaseASCII (c_description bare)) ''hpc'')"
    by code_simp
  have un: "m_tags untagged = None" by (simp add: untagged_def)
  have u: "includes_of (toLowerCaseASCII (m_name untagged)) ''bit'' \<or>
           includes_of (toLowerCaseASCII (m_description untagged)) ''bit''"
    by code_simp
  note T1 = absent_collections [where c = cuszp and lc = toLowerCaseASCII and query = "''hpc''"
      and m = untagged and cs = "[cuszp, sz3]" and ms = "[]" and selectedCategory = "''All''"
      and searchQuery = "''HPC''"]
  note T2 = absent_collections [where c = bare and lc = toLowerCaseASCII and query = "''hpc''"
      and m = untagged and cs = "[]" and ms = "[]" and selectedCategory = "''All''"
      and searchQuery = "''HPC''"]
  note T3 = absent_collections [where c = bare and lc = toLowerCaseASCII and query = "''bit''"
      and m = untagged and cs = "[]" and ms = "[]" and selectedCategory = "''All''"
      and searchQuery = "''HPC''"]
  note W1 = T1 [THEN conjunct1, THEN mp, OF t]
  note W5 = T1 [THEN conjunct2, THEN conjunct2, THEN conjunct2, THEN conjunct2,
      THEN conjunct1, THEN mp, OF ts]
  note W7 = T2 [THEN conjunct2, THEN conjunct2, THEN conjunct2, THEN conjunct2,
      THEN conjunct2, THEN conjunct2, THEN conjunct1, THEN mp, OF bn]
  note W8 = T3 [THEN conjunct2, THEN conjunct2, THEN conjunct2, THEN conjunct2,
      THEN conjunct2, THEN conjunct2, THEN conjunct2, THEN mp, OF un]
  have W7': "matchesComposition toLowerCaseASCII ''hpc'' bare = Inl TypeError"
    unfolding W7 using b by simp
  have W8': "matchesModule toLowerCaseASCII ''bit'' untagged = Inr True"
    unfolding W8 using u by simp
  from t t' W1 W5 bn W7' un W8' show ?thesis by blast
qed

theorem missing_tags_counterexample:
  "c_tags bare = None \<and> c_usedIn bare = None \<and> c_capabilities bare = None \<and>
   filteredCompositions toLowerCaseASCII [bare] ''All'' ''gpu'' = Inl TypeError \<and>
   m_tags untagged = None \<and>
   filteredModules toLowerCaseASCII [untagged] ''entropy'' ''all'' = Inl TypeError"
  by code_simp

subsection \<open>Grouping by category\<close>

lemma forEachE_append:
  "forEachE f (xs @ ys) s =
     (case forEachE f xs s of Inl e \<Rightarrow> Inl e | Inr s' \<Rightarrow> forEachE f ys s')"
  by (induction xs arbitrary: s) (auto split: sum.splits)

lemma map_of_keyed:
  "map_of (map (\<lambda>k. (k, f k)) ks) k = (if k \<in> set ks then Some (f k) else None)"
  by (induction ks) auto

lemma setProperty_new:
  "k \<notin> fst ` set ps \<Longrightarrow> setProperty k v ps = ps @ [(k, v)]"
  by (induction ps) auto

lemma setProperty_last:
  "k \<notin> fst ` set ps \<Longrightarrow> setProperty k v (ps @ [(k, w)]) = ps @ [(k, v)]"
  by (induction ps) auto

lemma setProperty_keyed:
  "distinct ks \<Longrightarrow> k \<in> set ks \<Longrightarrow>
   setProperty k v (map (\<lambda>x. (x, f x)) ks) = map (\<lambda>x. (x, if x = k then v else f x)) ks"
proof (induction ks)
  case Nil
  then show ?case by simp
next
  case (Cons a ks)
  show ?case
  proof (cases "a = k")
    case True
    with Cons.prems have "k \<notin> set ks" by simp
    then have "map (\<lambda>x. (x, f x)) ks = map (\<lambda>x. (x, if x = k then v else f x)) ks"
      by (intro map_cong) auto
    with True show ?thesis by simp
  next
    case False
    with Cons show ?thesis by simp
  qed
qed

lemma groupStep_keyed:
  assumes "m_category m \<notin> set objectPrototypeKeys"
  shows "groupStep
           (map (\<lambda>k. (k, filter (\<lambda>x. m_category x = k) ms)) (newSet (map m_category ms))) m =
         Inr (map (\<lambda>k. (k, filter (\<lambda>x. m_category x = k) (ms @ [m])))
                (newSet (map m_category (ms @ [m]))))"
proof -
  let ?k = "m_category m"
  let ?ks = "newSet (map m_category ms)"
  let ?f = "\<lambda>k. filter (\<lambda>x. m_category x = k) ms"
  let ?g = "map (\<lambda>k. (k, ?f k)) ?ks"
  show ?thesis
  proof (cases "?k \<in> set ?ks")
    case True
    then have look: "getProperty ?g ?k = Own (?f ?k)"
      by (simp add: getProperty_def map_of_keyed)
    have upd: "setProperty ?k (?f ?k @ [m]) ?g =
                 map (\<lambda>x. (x, if x = ?k then ?f ?k @ [m] else ?f x)) ?ks"
      using True by (intro setProperty_keyed distinct_newSet)
    have "map (\<lambda>x. (x, if x = ?k then ?f ?k @ [m] else ?f x)) ?ks =
          map (\<lambda>k. (k, filter (\<lambda>x. m_category x = k) (ms @ [m]))) ?ks"
      by (intro map_cong) auto
    moreover have "newSet (map m_category (ms @ [m])) = ?ks"
      using True by (simp add: newSet_snoc set_newSet)
    ultimately show ?thesis
      using look upd by (simp add: groupStep_def Let_def)
  next
    case False
    then have look: "getProperty ?g ?k = Undefined"
      using assms by (simp add: getProperty_def map_of_keyed)
    have keys: "fst ` set ?g = set ?ks" by force
    have new: "setProperty ?k [] ?g = ?g @ [(?k, [])]"
      using False keys by (intro setProperty_new) simp
    have look1: "getProperty (?g @ [(?k, [])]) ?k = Own []"
      using False by (simp add: getProperty_def map_of_append map_add_def map_of_keyed)
    have upd: "setProperty ?k ([] @ [m]) (?g @ [(?k, [])]) = ?g @ [(?k, [m])]"
      using False keys by (simp add: setProperty_last)
    have "\<forall>x\<in>set ms. m_category x \<noteq> ?k"
      using False unfolding set_newSet set_map by (metis imageI)
    then have empty: "?f ?k = []"
      by (simp add: filter_empty_conv)
    have "map (\<lambda>k. (k, filter (\<lambda>x. m_category x = k) (ms @ [m]))) ?ks = ?g"
      using False by (intro map_cong) auto
    moreover have "newSet (map m_category (ms @ [m])) = ?ks @ [?k]"
      using False by (simp add: newSet_snoc set_newSet)
    ultimately show ?thesis
      using look new look1 upd empty by (simp add: groupStep_def Let_def)
  qed
qed

lemma groupByCategory_keyed:
  "\<forall>m\<in>set ms. m_category m \<notin> set objectPrototypeKeys \<Longrightarrow>
   groupByCategory ms =
     Inr (map (\<lambda>k. (k, filter (\<lambda>x. m_category x = k) ms)) (newSet (map m_category ms)))"
proof (induction ms rule: rev_induct)
  case Nil
  then show ?case by (simp add: groupByCategory_def newSet_def)
next
  case (snoc m ms)
  then have IH: "forEachE groupStep ms [] =
     Inr (map (\<lambda>k. (k, filter (\<lambda>x. m_category x = k) ms)) (newSet (map m_category ms)))"
    by (simp add: groupByCategory_def)
  from snoc.prems have "m_category m \<notin> set objectPrototypeKeys" by simp
  from groupStep_keyed [OF this, of ms] IH show ?case
    by (simp add: groupByCategory_def forEachE_append)
qed

lemma mset_objectEntries: "mset (objectEntries g) = mset g"
  by (simp add: objectEntries_def)

lemma set_objectEntries: "set (objectEntries g) = set g"
  using mset_objectEntries by (rule mset_eq_setD)

lemma objectEntries_no_index:
  "\<forall>p\<in>set g. \<not> isArrayIndex (fst p) \<Longrightarrow> objectEntries g = g"
proof -
  assume a: "\<forall>p\<in>set g. \<not> isArrayIndex (fst p)"
  then have "filter (\<lambda>p. isArrayIndex (fst p)) g = []"
    by (simp add: filter_empty_conv)
  moreover from a have "filter (\<lambda>p. \<not> isArrayIndex (fst p)) g = g"
    by (simp add: filter_id_conv)
  ultimately show ?thesis by (simp add: objectEntries_def)
qed

lemma mset_concat_snd:
  "mset (concat (map snd ps)) = sum_mset (image_mset (\<lambda>p. mset (snd p)) (mset ps))"
  by (induction ps) auto

lemma mset_buckets:
  "distinct ks \<Longrightarrow>
   mset (concat (map (\<lambda>k. filter (\<lambda>x. f x = k) xs) ks)) = mset (filter (\<lambda>x. f x \<in> set ks) xs)"
proof (induction ks)
  case Nil
  then show ?case by simp
next
  case (Cons k ks)
  then have k: "k \<notin> set ks" and IH:
    "mset (concat (map (\<lambda>k. filter (\<lambda>x. f x = k) xs) ks)) = mset (filter (\<lambda>x. f x \<in> set ks) xs)"
    by auto
  have "mset (filter (\<lambda>x. f x = k) xs) + mset (filter (\<lambda>x. f x \<in> set ks) xs) =
        mset (filter (\<lambda>x. f x \<in> set (k # ks)) xs)"
    using k by (induction xs) auto
  with IH show ?case by simp
qed

lemma mset_grouping:
  "mset (concat (map snd (map (\<lambda>k. (k, filter (\<lambda>x. f x = k) xs)) (newSet (map f xs))))) = mset xs"
proof -
  have "map snd (map (\<lambda>k. (k, filter (\<lambda>x. f x = k) xs)) (newSet (map f xs))) =
        map (\<lambda>k. filter (\<lambda>x. f x = k) xs) (newSet (map f xs))"
    by simp
  moreover have "filter (\<lambda>x. f x \<in> set (newSet (map f xs))) xs = xs"
    by (simp add: set_newSet filter_id_conv)
  ultimately show ?thesis
    using mset_buckets [OF distinct_newSet, of f xs "map f xs"] by (simp add: comp_def)
qed

lemma snd_renderedBuckets:
  "map (\<lambda>(category, n, bucket). bucket) (renderedBuckets g) = map snd (objectEntries g)"
  by (simp add: renderedBuckets_def case_prod_beta)

lemma fst_renderedBuckets: "map fst (renderedBuckets g) = map fst (objectEntries g)"
  by (simp add: renderedBuckets_def case_prod_beta)


lemma in_renderedBuckets:
  "(category, n, bucket) \<in> set (renderedBuckets g) \<longleftrightarrow>
   (category, bucket) \<in> set g \<and> n = length bucket"
proof -
  have "(category, n, bucket) \<in> set (renderedBuckets g) \<longleftrightarrow>
        (category, bucket) \<in> set (objectEntries g) \<and> n = length bucket"
    by (auto simp: renderedBuckets_def)
  then show ?thesis by (simp only: set_objectEntries)
qed

lemma distinct_renderedBuckets:
  "distinct (map fst g) \<Longrightarrow> distinct (map fst (renderedBuckets g))"
proof -
  assume d: "distinct (map fst g)"
  have "mset (map fst (objectEntries g)) = mset (map fst g)"
    by (simp only: mset_map mset_objectEntries)
  with d have "distinct (map fst (objectEntries g))"
    by (metis mset_eq_imp_distinct_iff)
  then show ?thesis by (simp only: fst_renderedBuckets)
qed

lemma in_grouping:
  "(k, b) \<in> set (map (\<lambda>k. (k, filter (\<lambda>x. f x = k) xs)) (newSet (map f xs))) \<longleftrightarrow>
   k \<in> f ` set xs \<and> b = filter (\<lambda>x. f x = k) xs"
  by (auto simp: set_newSet)

lemma fst_grouping:
  "map fst (map (\<lambda>k. (k, g k)) ks) = ks"
  by (simp add: comp_def)
text \<open>
  C2, as the code has it. For a filtered module sequence none of whose categories is a name
  inherited from \<^verbatim>\<open>Object.prototype\<close>, the grouping returns one bucket for each category
  in the order of first occurrence, each bucket being the items of that category in their
  order in the sequence. The rendered buckets, concatenated, hold every item of the
  sequence exactly once (a permutation of it: items of one category are brought
  together); every rendered bucket is non-empty and carries its length as count; the
  rendered categories are distinct, and they come in first-occurrence order when none of
  them is an array index.
\<close>

theorem grouping_partitions:
  "(\<forall>m\<in>set filtered. m_category m \<notin> set objectPrototypeKeys) \<longrightarrow>
   (\<exists>grouped.
      groupByCategory filtered = Inr grouped \<and>
      grouped = map (\<lambda>category. (category, filter (\<lambda>m. m_category m = category) filtered))
                  (newSet (map m_category filtered)) \<and>
      mset (concat (map (\<lambda>(category, n, bucket). bucket) (renderedBuckets grouped))) =
        mset filtered \<and>
      (\<forall>(category, n, bucket)\<in>set (renderedBuckets grouped).
         n = length bucket \<and> bucket \<noteq> [] \<and>
         bucket = filter (\<lambda>m. m_category m = category) filtered) \<and>
      distinct (map fst (renderedBuckets grouped)) \<and>
      ((\<forall>m\<in>set filtered. \<not> isArrayIndex (m_category m)) \<longrightarrow>
         map fst (renderedBuckets grouped) = newSet (map m_category filtered)))"
proof
  assume safe: "\<forall>m\<in>set filtered. m_category m \<notin> set objectPrototypeKeys"
  let ?ks = "newSet (map m_category filtered)"
  let ?G = "map (\<lambda>category. (category, filter (\<lambda>m. m_category m = category) filtered)) ?ks"
  have 1: "groupByCategory filtered = Inr ?G"
    using safe by (rule groupByCategory_keyed)
  have "mset (concat (map snd (objectEntries ?G))) = mset (concat (map snd ?G))"
    by (simp only: mset_concat_snd mset_objectEntries)
  then have 2: "mset (concat (map (\<lambda>(category, n, bucket). bucket) (renderedBuckets ?G))) =
                  mset filtered"
    by (simp only: snd_renderedBuckets mset_grouping)
  have 3: "\<forall>(category, n, bucket)\<in>set (renderedBuckets ?G).
             n = length bucket \<and> bucket \<noteq> [] \<and>
             bucket = filter (\<lambda>m. m_category m = category) filtered"
  proof -
    {
      fix category n bucket
      assume "(category, n, bucket) \<in> set (renderedBuckets ?G)"
      then have in_G: "(category, bucket) \<in> set ?G" and n: "n = length bucket"
        by (simp_all only: in_renderedBuckets)
      from in_G have k: "category \<in> m_category ` set filtered"
        and b: "bucket = filter (\<lambda>m. m_category m = category) filtered"
        by (simp_all only: in_grouping)
      from k obtain x where "x \<in> set filtered" "m_category x = category" by auto
      then have "filter (\<lambda>m. m_category m = category) filtered \<noteq> []"
        by (auto simp: filter_empty_conv)
      with n b have "n = length bucket \<and> bucket \<noteq> [] \<and>
                      bucket = filter (\<lambda>m. m_category m = category) filtered"
        by simp
    }
    then show ?thesis by blast
  qed
  have keys: "map fst ?G = ?ks" by (rule fst_grouping)
  have 4: "distinct (map fst (renderedBuckets ?G))"
    by (rule distinct_renderedBuckets) (simp only: keys distinct_newSet)
  have 5: "(\<forall>m\<in>set filtered. \<not> isArrayIndex (m_category m)) \<longrightarrow>
             map fst (renderedBuckets ?G) = ?ks"
  proof
    assume a: "\<forall>m\<in>set filtered. \<not> isArrayIndex (m_category m)"
    have "\<forall>p\<in>set ?G. \<not> isArrayIndex (fst p)"
    proof
      fix p assume "p \<in> set ?G"
      then have "fst p \<in> set (map fst ?G)" by (rule imageI [of p "set ?G" fst, folded set_map])
      then have "fst p \<in> m_category ` set filtered" by (simp only: keys set_newSet set_map)
      with a show "\<not> isArrayIndex (fst p)" by auto
    qed
    then have "objectEntries ?G = ?G" by (rule objectEntries_no_index)
    then show "map fst (renderedBuckets ?G) = ?ks"
      by (simp only: fst_renderedBuckets keys)
  qed
  from 1 2 3 4 5 show "\<exists>grouped.
      groupByCategory filtered = Inr grouped \<and>
      grouped = map (\<lambda>category. (category, filter (\<lambda>m. m_category m = category) filtered))
                  (newSet (map m_category filtered)) \<and>
      mset (concat (map (\<lambda>(category, n, bucket). bucket) (renderedBuckets grouped))) =
        mset filtered \<and>
      (\<forall>(category, n, bucket)\<in>set (renderedBuckets grouped).
         n = length bucket \<and> bucket \<noteq> [] \<and>
         bucket = filter (\<lambda>m. m_category m = category) filtered) \<and>
      distinct (map fst (renderedBuckets grouped)) \<and>
      ((\<forall>m\<in>set filtered. \<not> isArrayIndex (m_category m)) \<longrightarrow>
         map fst (renderedBuckets grouped) = newSet (map m_category filtered))"
    by (intro exI [of _ ?G] conjI 1 refl 2 3 4 5)
qed
theorem grouping_partitions_witness:
  "m_category rle \<notin> set objectPrototypeKeys \<and>
   m_category lorenzo \<notin> set objectPrototypeKeys \<and>
   m_category huffman \<notin> set objectPrototypeKeys \<and>
   groupByCategory [rle, lorenzo, huffman] =
     Inr [(''Encoder'', [rle, huffman]), (''Predictor'', [lorenzo])] \<and>
   mset (concat (map (\<lambda>(category, n, bucket). bucket)
     (renderedBuckets [(''Encoder'', [rle, huffman]), (''Predictor'', [lorenzo])]))) =
     mset [rle, lorenzo, huffman]"
proof -
  have safe: "\<forall>m\<in>set [rle, lorenzo, huffman]. m_category m \<notin> set objectPrototypeKeys"
    by code_simp
  have G: "map (\<lambda>category. (category, filter (\<lambda>m. m_category m = category) [rle, lorenzo, huffman]))
             (newSet (map m_category [rle, lorenzo, huffman])) =
           [(''Encoder'', [rle, huffman]), (''Predictor'', [lorenzo])]"
    by code_simp
  from grouping_partitions [of "[rle, lorenzo, huffman]", THEN mp, OF safe]
  obtain grouped where g: "groupByCategory [rle, lorenzo, huffman] = Inr grouped"
    and e: "grouped = map (\<lambda>category. (category, filter (\<lambda>m. m_category m = category)
                             [rle, lorenzo, huffman]))
                        (newSet (map m_category [rle, lorenzo, huffman]))"
    and p: "mset (concat (map (\<lambda>(category, n, bucket). bucket) (renderedBuckets grouped))) =
              mset [rle, lorenzo, huffman]"
    by blast
  from e G have "grouped = [(''Encoder'', [rle, huffman]), (''Predictor'', [lorenzo])]"
    by simp
  with safe g p show ?thesis by simp
qed

theorem grouping_reorders_counterexample:
  "groupByCategory [rle, lorenzo, huffman] =
     Inr [(''Encoder'', [rle, huffman]), (''Predictor'', [lorenzo])] \<and>
   concat (map (snd \<circ> snd)
     (renderedBuckets [(''Encoder'', [rle, huffman]), (''Predictor'', [lorenzo])])) =
     [rle, huffman, lorenzo] \<and>
   [rle, huffman, lorenzo] \<noteq> [rle, lorenzo, huffman]"
  by code_simp

subsection \<open>The query string of the issue URL\<close>

lemma unreserved_plain:
  "unreserved c \<Longrightarrow>
   c \<noteq> CHR ''&'' \<and> c \<noteq> CHR ''='' \<and> c \<noteq> CHR ''#'' \<and> c \<noteq> CHR ''?'' \<and>
   c \<noteq> CHR ''+'' \<and> c \<noteq> CHR ''%'' \<and> c \<noteq> CHR '' ''"
  by (auto simp: unreserved_def less_eq_char_def)

lemma hexDigit_mem: "hexDigit n \<in> set ''0123456789ABCDEF''"
  unfolding hexDigit_def by (rule nth_mem) simp

lemma hex_chars_plain:
  "c \<in> set ''0123456789ABCDEF'' \<Longrightarrow>
   isHexDigit c \<and> c \<noteq> CHR ''&'' \<and> c \<noteq> CHR ''='' \<and> c \<noteq> CHR ''#'' \<and>
   c \<noteq> CHR ''?'' \<and> c \<noteq> CHR ''+'' \<and> c \<noteq> CHR ''%''"
  by (auto simp: isHexDigit_def less_eq_char_def)

lemma hexValue_table:
  "list_all (\<lambda>k. hexValue (hexDigit k) = k) [0, 1, 2, 3, 4, 5, 6, 7, 8, 9, 10, 11, 12, 13, 14, 15]"
  by code_simp

lemma hexValue_hexDigit: "k < 16 \<Longrightarrow> hexValue (hexDigit k) = k"
proof -
  assume "k < 16"
  then have "k \<in> set [0, 1, 2, 3, 4, 5, 6, 7, 8, 9, 10, 11, 12, 13, 14, 15 :: nat]"
    by (simp add: numeral_eq_Suc less_Suc_eq) 
  with hexValue_table show ?thesis
    unfolding list_all_iff by blast
qed

lemma byte_of_nibbles:
  "char_of (16 * hexValue (hexDigit (of_char c div 16)) + hexValue (hexDigit (of_char c mod 16)) :: nat) = c"
proof -
  have lt: "(of_char c :: nat) < 256"
    by (rule nat_of_char_less_256)
  then have "(of_char c :: nat) div 16 < 16" by arith
  then have "hexValue (hexDigit (of_char c div 16)) = of_char c div 16"
    by (rule hexValue_hexDigit)
  moreover have "hexValue (hexDigit (of_char c mod 16)) = of_char c mod 16"
    by (rule hexValue_hexDigit) simp
  ultimately show ?thesis by simp
qed

lemma percentDecode_plain:
  "c \<noteq> CHR ''%'' \<Longrightarrow> percentDecode (c # rest) = c # percentDecode rest"
proof (cases rest)
  case Nil
  then show ?thesis by simp
next
  case (Cons h1 t)
  assume c: "c \<noteq> CHR ''%''"
  show ?thesis
  proof (cases t)
    case Nil
    with Cons show ?thesis by simp
  next
    case (Cons h2 r)
    with \<open>rest = h1 # t\<close> c show ?thesis by simp
  qed
qed

lemma percentDecode_escape:
  "isHexDigit h1 \<Longrightarrow> isHexDigit h2 \<Longrightarrow>
   percentDecode (CHR ''%'' # h1 # h2 # rest) =
     char_of (16 * hexValue h1 + hexValue h2) # percentDecode rest"
  by simp

lemma urldecode_byte:
  "urldecode (percentEncodeByte c @ s) = c # urldecode s"
proof -
  consider (space) "c = CHR '' ''" | (plain) "c \<noteq> CHR '' ''" "unreserved c"
    | (escape) "c \<noteq> CHR '' ''" "\<not> unreserved c"
    by blast
  then show ?thesis
  proof cases
    case space
    then show ?thesis
      by (simp add: percentEncodeByte_def urldecode_def percentDecode_plain)
  next
    case plain
    with unreserved_plain [of c] show ?thesis
      by (simp add: percentEncodeByte_def urldecode_def percentDecode_plain)
  next
    case escape
    let ?h1 = "hexDigit (of_char c div 16)" and ?h2 = "hexDigit (of_char c mod 16)"
    from hex_chars_plain [OF hexDigit_mem, of "of_char c div 16"]
    have h1: "isHexDigit ?h1" "?h1 \<noteq> CHR ''+''" by simp_all
    from hex_chars_plain [OF hexDigit_mem, of "of_char c mod 16"]
    have h2: "isHexDigit ?h2" "?h2 \<noteq> CHR ''+''" by simp_all
    have "urldecode (percentEncodeByte c @ s) =
          percentDecode (CHR ''%'' # ?h1 # ?h2 # map (\<lambda>c. if c = CHR ''+'' then CHR '' '' else c) s)"
      using escape h1 h2 by (simp add: percentEncodeByte_def urldecode_def)
    also have "\<dots> = char_of (16 * hexValue ?h1 + hexValue ?h2) # urldecode s"
      using h1 h2 by (simp only: percentDecode_escape urldecode_def)
    finally show ?thesis by (simp only: byte_of_nibbles)
  qed
qed

lemma urldecode_urlencode: "urldecode (urlencode s) = s"
proof (induction s)
  case Nil
  then show ?case by (simp add: urlencode_def urldecode_def)
next
  case (Cons c s)
  have "urlencode (c # s) = percentEncodeByte c @ urlencode s"
    by (simp add: urlencode_def)
  with Cons show ?case by (simp add: urldecode_byte)
qed

lemma percentEncodeByte_chars:
  "x \<in> set (percentEncodeByte c) \<Longrightarrow>
   x \<noteq> CHR ''&'' \<and> x \<noteq> CHR ''='' \<and> x \<noteq> CHR ''#'' \<and> x \<noteq> CHR ''?''"
proof -
  assume x: "x \<in> set (percentEncodeByte c)"
  consider (space) "c = CHR '' ''" | (plain) "c \<noteq> CHR '' ''" "unreserved c"
    | (escape) "c \<noteq> CHR '' ''" "\<not> unreserved c"
    by blast
  then show ?thesis
  proof cases
    case space
    with x show ?thesis by (simp add: percentEncodeByte_def)
  next
    case plain
    with x unreserved_plain [of c] show ?thesis by (simp add: percentEncodeByte_def)
  next
    case escape
    with x have "x = CHR ''%'' \<or> x = hexDigit (of_char c div 16) \<or> x = hexDigit (of_char c mod 16)"
      by (auto simp: percentEncodeByte_def)
    with hex_chars_plain [OF hexDigit_mem, of "of_char c div 16"]
      hex_chars_plain [OF hexDigit_mem, of "of_char c mod 16"]
    show ?thesis by auto
  qed
qed

lemma urlencode_chars:
  "x \<in> set (urlencode s) \<Longrightarrow>
   x \<noteq> CHR ''&'' \<and> x \<noteq> CHR ''='' \<and> x \<noteq> CHR ''#'' \<and> x \<noteq> CHR ''?''"
  unfolding urlencode_def using percentEncodeByte_chars by auto

lemma splitOn_nonempty: "splitOn d s \<noteq> []"
  by (induction s) (auto split: list.splits)

lemma splitOn_piece: "d \<notin> set p \<Longrightarrow> splitOn d p = [p]"
  by (induction p) (auto split: list.splits)

lemma splitOn_first: "d \<notin> set p \<Longrightarrow> splitOn d (p @ d # rest) = p # splitOn d rest"
  by (induction p) (auto split: list.splits simp: splitOn_nonempty)

lemma join_Cons: "xs \<noteq> [] \<Longrightarrow> join sep (x # xs) = x @ sep @ join sep xs"
  by (cases xs) auto

lemma set_join: "c \<in> set (join sep xs) \<Longrightarrow> c \<in> set sep \<or> (\<exists>x\<in>set xs. c \<in> set x)"
  by (induction sep xs rule: join.induct) auto

lemma pair_chars:
  "x \<in> set (urlencode n @ ''='' @ urlencode v) \<Longrightarrow>
   x \<noteq> CHR ''&'' \<and> x \<noteq> CHR ''#'' \<and> x \<noteq> CHR ''?''"
  using urlencode_chars [of x n] urlencode_chars [of x v] by auto

lemma serializeParams_chars:
  "x \<in> set (serializeParams params) \<Longrightarrow> x \<noteq> CHR ''#'' \<and> x \<noteq> CHR ''?''"
proof -
  assume "x \<in> set (serializeParams params)"
  then have "x \<in> set ''&'' \<or>
             (\<exists>p\<in>set (map (\<lambda>(n, v). urlencode n @ ''='' @ urlencode v) params). x \<in> set p)"
    unfolding serializeParams_def by (rule set_join)
  then show ?thesis
  proof
    assume "x \<in> set ''&''"
    then show ?thesis by simp
  next
    assume "\<exists>p\<in>set (map (\<lambda>(n, v). urlencode n @ ''='' @ urlencode v) params). x \<in> set p"
    then obtain n v where "x \<in> set (urlencode n @ ''='' @ urlencode v)" by auto
    then show ?thesis using pair_chars by blast
  qed
qed

lemma parse_pair:
  "urldecode (takeWhile (\<lambda>c. c \<noteq> CHR ''='') (urlencode n @ ''='' @ urlencode v)) = n \<and>
   urldecode (drop 1 (dropWhile (\<lambda>c. c \<noteq> CHR ''='') (urlencode n @ ''='' @ urlencode v))) = v"
proof -
  have plain: "\<And>x. x \<in> set (urlencode n) \<Longrightarrow> x \<noteq> CHR ''=''"
    using urlencode_chars by blast
  have "takeWhile (\<lambda>c. c \<noteq> CHR ''='') (urlencode n @ ''='' @ urlencode v) = urlencode n"
    using plain by (simp add: takeWhile_append2)
  moreover have "dropWhile (\<lambda>c. c \<noteq> CHR ''='') (urlencode n @ ''='' @ urlencode v) =
                 ''='' @ urlencode v"
    using plain by (simp add: dropWhile_append2)
  ultimately show ?thesis by (simp add: urldecode_urlencode)
qed

lemma parseParams_single:
  "parseParams (urlencode n @ ''='' @ urlencode v) = [(n, v)]"
proof -
  have "CHR ''&'' \<notin> set (urlencode n @ ''='' @ urlencode v)"
    using pair_chars by blast
  then have "splitOn CHR ''&'' (urlencode n @ ''='' @ urlencode v) =
               [urlencode n @ ''='' @ urlencode v]"
    by (rule splitOn_piece)
  then show ?thesis
    using parse_pair [of n v] by (simp add: parseParams_def)
qed

lemma parseParams_first:
  "parseParams ((urlencode n @ ''='' @ urlencode v) @ CHR ''&'' # rest) = (n, v) # parseParams rest"
proof -
  have "CHR ''&'' \<notin> set (urlencode n @ ''='' @ urlencode v)"
    using pair_chars by blast
  then have "splitOn CHR ''&'' ((urlencode n @ ''='' @ urlencode v) @ CHR ''&'' # rest) =
               (urlencode n @ ''='' @ urlencode v) # splitOn CHR ''&'' rest"
    by (rule splitOn_first)
  then show ?thesis
    using parse_pair [of n v] by (simp add: parseParams_def)
qed

lemma parseParams_serializeParams: "parseParams (serializeParams params) = params"
proof (induction params)
  case Nil
  then show ?case by (simp add: serializeParams_def parseParams_def)
next
  case (Cons p ps)
  obtain n v where p: "p = (n, v)" by (cases p)
  show ?case
  proof (cases "ps = []")
    case True
    with p parseParams_single [of n v] show ?thesis by (simp add: serializeParams_def)
  next
    case False
    then have "serializeParams (p # ps) =
               (urlencode n @ ''='' @ urlencode v) @ CHR ''&'' # serializeParams ps"
      using p by (simp add: serializeParams_def join_Cons)
    with Cons show ?thesis by (simp only: parseParams_first p)
  qed
qed

lemma urlQuery_append:
  assumes "CHR ''?'' \<notin> set base" and "CHR ''#'' \<notin> set base" and "CHR ''#'' \<notin> set q"
  shows "urlQuery (base @ ''?'' @ q) = q"
proof -
  have plain: "\<And>x. x \<in> set base \<Longrightarrow> x \<noteq> CHR ''?''"
    using assms(1) by auto
  have t: "takeWhile (\<lambda>c. c \<noteq> CHR ''#'') (base @ ''?'' @ q) = base @ ''?'' @ q"
    using assms by (auto simp: takeWhile_eq_all_conv)
  have d: "dropWhile (\<lambda>c. c \<noteq> CHR ''?'') (base @ ''?'' @ q) = ''?'' @ q"
    using plain by (simp add: dropWhile_append2)
  show ?thesis unfolding urlQuery_def t d by simp
qed

lemma takeWhile_base:
  assumes "CHR ''?'' \<notin> set base"
  shows "takeWhile (\<lambda>c. c \<noteq> CHR ''?'') (base @ ''?'' @ q) = base"
proof -
  have plain: "\<And>x. x \<in> set base \<Longrightarrow> x \<noteq> CHR ''?''"
    using assms by auto
  then show ?thesis by (simp add: takeWhile_append2)
qed

lemma issue_url_sample:
  "buildIssueUrl ''org/repo'' sampleForm =
     ''https://github.com/org/repo/issues/new?title=%5BDataset%5D+Contributing+Foo&body=%23%23%23+Dataset+name%0AFoo%0A%0A%23%23%23+Description%0A%0A%0A%23%23%23+Data+URL%28s%29%0Ahttp%3A%2F%2Fx%0A%0A%23%23%23+Size%0A%0A%0A%23%23%23+Tags%0A%0A%0A_Submitted+via+Z-Hub+site_&labels=dataset''"
  by code_simp

text \<open>
  C9. For every form and every repository slug without \<^verbatim>\<open>?\<close> and \<^verbatim>\<open>#\<close> (the empty
  slug included), the query of the built URL reads back as the three parameters
  \<open>title\<close>, \<open>body\<close>, \<open>labels\<close>, with \<open>title\<close> decoding to
  \<^verbatim>\<open>[Dataset] Contributing <name>\<close> and \<open>labels\<close> to \<^verbatim>\<open>dataset\<close>; the URL in front
  of the query is the repository's new-issue page, and the generic
  \<^verbatim>\<open>https://github.com/new\<close> when the slug is empty. The builder is a total function of
  slug and form.
\<close>

theorem issue_url_parameters:
  "CHR ''?'' \<notin> set repoSlug \<and> CHR ''#'' \<notin> set repoSlug \<longrightarrow>
     queryParam ''title'' (buildIssueUrl repoSlug uploadForm) =
       Some (''[Dataset] Contributing '' @ form_name uploadForm) \<and>
     queryParam ''labels'' (buildIssueUrl repoSlug uploadForm) = Some ''dataset'' \<and>
     map fst (parseParams (urlQuery (buildIssueUrl repoSlug uploadForm))) =
       [''title'', ''body'', ''labels''] \<and>
     takeWhile (\<lambda>c. c \<noteq> CHR ''?'') (buildIssueUrl repoSlug uploadForm) =
       (if repoSlug = [] then ''https://github.com/new''
        else ''https://github.com/'' @ repoSlug @ ''/issues/new'')"
proof
  assume slug: "CHR ''?'' \<notin> set repoSlug \<and> CHR ''#'' \<notin> set repoSlug"
  define base where "base = (if repoSlug \<noteq> [] then ''https://github.com/'' @ repoSlug @ ''/issues/new''
                             else ''https://github.com/new'')"
  define title where "title = ''[Dataset] Contributing '' @ orEmpty (form_name uploadForm)"
  obtain body where url: "buildIssueUrl repoSlug uploadForm =
      base @ ''?'' @ serializeParams [(''title'', title), (''body'', body), (''labels'', ''dataset'')]"
    by (simp add: buildIssueUrl_def Let_def base_def title_def)
  let ?params = "[(''title'', title), (''body'', body), (''labels'', ''dataset'')]"
  have b: "CHR ''?'' \<notin> set base" "CHR ''#'' \<notin> set base"
    using slug by (auto simp: base_def)
  have q: "CHR ''#'' \<notin> set (serializeParams ?params)"
    using serializeParams_chars by blast
  have "urlQuery (buildIssueUrl repoSlug uploadForm) = serializeParams ?params"
    unfolding url using b q by (rule urlQuery_append)
  then have parsed: "parseParams (urlQuery (buildIssueUrl repoSlug uploadForm)) = ?params"
    by (simp only: parseParams_serializeParams)
  have t: "title = ''[Dataset] Contributing '' @ form_name uploadForm"
    by (simp add: title_def orEmpty_def)
  have 1: "queryParam ''title'' (buildIssueUrl repoSlug uploadForm) =
             Some (''[Dataset] Contributing '' @ form_name uploadForm)"
    unfolding queryParam_def parsed by (simp add: t)
  have 2: "queryParam ''labels'' (buildIssueUrl repoSlug uploadForm) = Some ''dataset''"
    unfolding queryParam_def parsed by simp
  have 3: "map fst (parseParams (urlQuery (buildIssueUrl repoSlug uploadForm))) =
             [''title'', ''body'', ''labels'']"
    unfolding parsed by simp
  have "takeWhile (\<lambda>c. c \<noteq> CHR ''?'') (buildIssueUrl repoSlug uploadForm) = base"
    unfolding url using b(1) by (rule takeWhile_base)
  then have 4: "takeWhile (\<lambda>c. c \<noteq> CHR ''?'') (buildIssueUrl repoSlug uploadForm) =
       (if repoSlug = [] then ''https://github.com/new''
        else ''https://github.com/'' @ repoSlug @ ''/issues/new'')"
    by (simp add: base_def)
  from 1 2 3 4 show
    "queryParam ''title'' (buildIssueUrl repoSlug uploadForm) =
       Some (''[Dataset] Contributing '' @ form_name uploadForm) \<and>
     queryParam ''labels'' (buildIssueUrl repoSlug uploadForm) = Some ''dataset'' \<and>
     map fst (parseParams (urlQuery (buildIssueUrl repoSlug uploadForm))) =
       [''title'', ''body'', ''labels''] \<and>
     takeWhile (\<lambda>c. c \<noteq> CHR ''?'') (buildIssueUrl repoSlug uploadForm) =
       (if repoSlug = [] then ''https://github.com/new''
        else ''https://github.com/'' @ repoSlug @ ''/issues/new'')"
    by (intro conjI)
qed

theorem issue_url_parameters_witness:
  "CHR ''?'' \<notin> set ''org/repo'' \<and> CHR ''#'' \<notin> set ''org/repo'' \<and>
   queryParam ''title'' (buildIssueUrl ''org/repo'' sampleForm) =
     Some ''[Dataset] Contributing Foo'' \<and>
   queryParam ''labels'' (buildIssueUrl ''org/repo'' sampleForm) = Some ''dataset'' \<and>
   takeWhile (\<lambda>c. c \<noteq> CHR ''?'') (buildIssueUrl ''org/repo'' sampleForm) =
     ''https://github.com/org/repo/issues/new'' \<and>
   queryParam ''title'' (buildIssueUrl [] sampleForm) = Some ''[Dataset] Contributing Foo'' \<and>
   takeWhile (\<lambda>c. c \<noteq> CHR ''?'') (buildIssueUrl [] sampleForm) = ''https://github.com/new''"
proof -
  have s: "CHR ''?'' \<notin> set ''org/repo'' \<and> CHR ''#'' \<notin> set ''org/repo''" by simp
  have e: "CHR ''?'' \<notin> set ('''' :: string) \<and> CHR ''#'' \<notin> set ('''' :: string)" by simp
  have n: "form_name sampleForm = ''Foo''" by (simp add: sampleForm_def)
  note A = issue_url_parameters [of "''org/repo''" sampleForm, THEN mp, OF s]
  note B = issue_url_parameters [of "[]" sampleForm, THEN mp, OF e]
  from s A B show ?thesis by (simp add: n)
qed

subsection \<open>The catalog scenario\<close>

lemma scenario_search_run: "filteredModules toLowerCaseASCII [rle] ''run'' ''all'' = Inr [rle]"
  by code_simp

lemma scenario_search_zzz: "filteredModules toLowerCaseASCII [rle] ''zzz'' ''all'' = Inr []"
  by code_simp

lemma scenario_category_encoder: "filteredModules toLowerCaseASCII [rle] [] ''Encoder'' = Inr [rle]"
  by code_simp

lemma scenario_category_filter: "filteredModules toLowerCaseASCII [rle] [] ''Filter'' = Inr []"
  by code_simp

lemma scenario_grouped:
  "modulesByCategory toLowerCaseASCII [rle] ''run'' ''all'' = Inr [(''Encoder'', [rle])]"
  by code_simp

lemma inherited_category_throws:
  "groupByCategory [rle\<lparr>m_category := ''constructor''\<rparr>] = Inl TypeError"
  by code_simp

lemma index_categories_first:
  "objectEntries [(''b'', [rle]), (''10'', [lorenzo]), (''9'', [huffman])] =
     [(''9'', [huffman]), (''10'', [lorenzo]), (''b'', [rle])]"
  by (simp add: objectEntries_def isArrayIndex_def isDigit_def digitsValue_def less_eq_char_def)

end
